theory Spec2Isabelle
  imports Main "HOL-Library.Word" "HOL-Library.Multiset" "HOL-Library.AList" "HOL-Library.Sublist"
begin

section \<open>BTF-Dumper: the type store and the exported nodes\<close>

text \<open>
  The program (\<^verbatim>\<open>main.go\<close>) reads the BTF type graph of an ELF file through the
  library \<^verbatim>\<open>github.com/cilium/ebpf/btf\<close> and writes it as JSON.  Type IDs are
  \<^verbatim>\<open>uint32\<close>; a node of the store refers to another node by the ID of that node
  (\<^verbatim>\<open>reader.TypeID\<close> of a reference held by a node of the store is that ID).
  The development covers the conversion of the nodes, the resolution of the targets and
  the traversal from the targets (\<^verbatim>\<open>-target\<close>).
\<close>

type_synonym TypeID = "32 word"

text \<open>\<^verbatim>\<open>btf.Member\<close>, \<^verbatim>\<open>btf.EnumValue\<close>, \<^verbatim>\<open>btf.FuncParam\<close>, \<^verbatim>\<open>btf.VarSecinfo\<close>
  of the library; \<^verbatim>\<open>Offset\<close> and \<^verbatim>\<open>BitfieldSize\<close> are \<^verbatim>\<open>btf.Bits\<close> (\<^verbatim>\<open>uint32\<close>).\<close>

record btf_Member =
  m_Name :: string
  m_Type :: TypeID
  m_Offset :: "32 word"
  m_BitfieldSize :: "32 word"

record btf_EnumValue =
  e_Name :: string
  e_Value :: "64 word"

record btf_FuncParam =
  p_Name :: string
  p_Type :: TypeID

record btf_VarSecinfo =
  s_Type :: TypeID
  s_Offset :: "32 word"
  s_Size :: "32 word"

text \<open>The seventeen node types of the library that \<^verbatim>\<open>BTFTypeParser\<close> switches over.
  The enumerations \<^verbatim>\<open>IntEncoding\<close>, \<^verbatim>\<open>FwdKind\<close> and \<^verbatim>\<open>FuncLinkage\<close>/\<^verbatim>\<open>VarLinkage\<close>
  appear by their \<^verbatim>\<open>String()\<close> rendering, the only way the program reads them.\<close>

datatype btf_Type =
    btf_Void
  | btf_Int string "32 word" string
  | btf_Pointer TypeID
  | btf_Array TypeID TypeID "32 word"
  | btf_Struct string "32 word" "btf_Member list"
  | btf_Union string "32 word" "btf_Member list"
  | btf_Enum string "32 word" bool "btf_EnumValue list"
  | btf_Fwd string string
  | btf_Typedef string TypeID
  | btf_Volatile TypeID
  | btf_Const TypeID
  | btf_Restrict TypeID
  | btf_Func string TypeID string
  | btf_FuncProto TypeID "btf_FuncParam list"
  | btf_Var string TypeID string
  | btf_Datasec string "32 word" "btf_VarSecinfo list"
  | btf_Float string "32 word"

text \<open>The category of a node: its dynamic Go type.  A zero-valued node such as
  \<^verbatim>\<open>&btf.Struct{}\<close> carries nothing but its category.\<close>

datatype Kind =
    KVoid | KInt | KPointer | KArray | KStruct | KUnion | KEnum | KFwd | KTypedef
  | KVolatile | KConst | KRestrict | KFunc | KFuncProto | KVar | KDatasec | KFloat

fun kind_of :: "btf_Type \<Rightarrow> Kind" where
  "kind_of btf_Void = KVoid"
| "kind_of (btf_Int _ _ _) = KInt"
| "kind_of (btf_Pointer _) = KPointer"
| "kind_of (btf_Array _ _ _) = KArray"
| "kind_of (btf_Struct _ _ _) = KStruct"
| "kind_of (btf_Union _ _ _) = KUnion"
| "kind_of (btf_Enum _ _ _ _) = KEnum"
| "kind_of (btf_Fwd _ _) = KFwd"
| "kind_of (btf_Typedef _ _) = KTypedef"
| "kind_of (btf_Volatile _) = KVolatile"
| "kind_of (btf_Const _) = KConst"
| "kind_of (btf_Restrict _) = KRestrict"
| "kind_of (btf_Func _ _ _) = KFunc"
| "kind_of (btf_FuncProto _ _) = KFuncProto"
| "kind_of (btf_Var _ _ _) = KVar"
| "kind_of (btf_Datasec _ _ _) = KDatasec"
| "kind_of (btf_Float _ _) = KFloat"

text \<open>\<^verbatim>\<open>Type.TypeName()\<close> of the library: the name of a named node, empty otherwise.\<close>

fun TypeName :: "btf_Type \<Rightarrow> string" where
  "TypeName (btf_Int n _ _) = n"
| "TypeName (btf_Struct n _ _) = n"
| "TypeName (btf_Union n _ _) = n"
| "TypeName (btf_Enum n _ _ _) = n"
| "TypeName (btf_Fwd n _) = n"
| "TypeName (btf_Typedef n _) = n"
| "TypeName (btf_Func n _ _) = n"
| "TypeName (btf_Var n _ _) = n"
| "TypeName (btf_Datasec n _ _) = n"
| "TypeName (btf_Float n _) = n"
| "TypeName _ = []"

text \<open>The panics of the program and the errors of the lookups it panics with.\<close>

datatype error =
    BadCategory
  | NotFound
  | MultipleMatches
  | UnknownType
  | NilDereference

subsection \<open>The type store (\<^verbatim>\<open>*btf.Spec\<close>)\<close>

text \<open>The store lists the nodes in declaration order; the ID of a node is its position.
  \<^verbatim>\<open>btf.Sizeof\<close> is a function of the library that the program only calls.\<close>

record Spec =
  types :: "btf_Type list"
  Sizeof :: "TypeID \<Rightarrow> int"

definition TypeByID :: "Spec \<Rightarrow> TypeID \<Rightarrow> btf_Type option" where
  "TypeByID s i = (if unat i < length (types s) then Some (types s ! unat i) else None)"

text \<open>Modelled from the spec: \<^verbatim>\<open>Spec.AnyTypeByName\<close> and \<^verbatim>\<open>Spec.TypeByName\<close> of the
  library are not part of the program's source.  The spec gives them as ``find by name
  across all categories'' and ``find by category-shaped key + name'', failing with NotFound
  when no node matches.  A name that several nodes match is reported as an error.\<close>

definition unique_match :: "Spec \<Rightarrow> (btf_Type \<Rightarrow> bool) \<Rightarrow> error + TypeID" where
  "unique_match s P =
     (case filter (\<lambda>n. P (types s ! n)) [0..<length (types s)] of
        [] \<Rightarrow> Inl NotFound
      | [n] \<Rightarrow> Inr (of_nat n)
      | _ \<Rightarrow> Inl MultipleMatches)"

definition AnyTypeByName :: "Spec \<Rightarrow> string \<Rightarrow> error + TypeID" where
  "AnyTypeByName s name = unique_match s (\<lambda>t. TypeName t = name)"

definition TypeByName :: "Spec \<Rightarrow> string \<Rightarrow> Kind \<Rightarrow> error + TypeID" where
  "TypeByName s name k = unique_match s (\<lambda>t. kind_of t = k \<and> TypeName t = name)"

text \<open>Modelled from the spec: \<^verbatim>\<open>btf.UnderlyingType\<close> of the library is not part of the
  program's source.  The spec (4.3): strip any chain of const, volatile, restrict and
  typedef wrappers ``by repeatedly following their single inner reference until a
  non-wrapper category is reached''.  On a cycle of wrappers no such node is reached:
  the result is \<open>None\<close>.\<close>

fun qualify :: "btf_Type \<Rightarrow> TypeID option" where
  "qualify (btf_Typedef _ t) = Some t"
| "qualify (btf_Volatile t) = Some t"
| "qualify (btf_Const t) = Some t"
| "qualify (btf_Restrict t) = Some t"
| "qualify _ = None"

partial_function (option) UnderlyingType :: "Spec \<Rightarrow> TypeID \<Rightarrow> TypeID option" where
  "UnderlyingType s i =
     (case TypeByID s i of
        None \<Rightarrow> Some i
      | Some t \<Rightarrow> (case qualify t of None \<Rightarrow> Some i | Some j \<Rightarrow> UnderlyingType s j))"

declare UnderlyingType.simps [code]

subsection \<open>The global variables of the program\<close>

record globals =
  reader :: Spec
  isDereference :: bool
  isAsMap :: bool
  isVerbose :: bool

subsection \<open>Strings: \<^verbatim>\<open>strings.TrimSpace\<close> and \<^verbatim>\<open>strings.Cut\<close>\<close>

text \<open>A Go string is a sequence of bytes.  \<^verbatim>\<open>strings.TrimSpace\<close> removes the leading and
  the trailing white space runes; these are their UTF-8 encodings (U+0009 to U+000D,
  U+0020, U+0085, U+00A0, U+1680, U+2000 to U+200A, U+2028, U+2029, U+202F, U+205F,
  U+3000).\<close>

definition space_seqs :: "string list" where
  "space_seqs =
     [[CHR 0x09], [CHR 0x0A], [CHR 0x0B], [CHR 0x0C], [CHR 0x0D], [CHR 0x20],
      [CHR 0xC2, CHR 0x85], [CHR 0xC2, CHR 0xA0],
      [CHR 0xE1, CHR 0x9A, CHR 0x80],
      [CHR 0xE2, CHR 0x80, CHR 0x80], [CHR 0xE2, CHR 0x80, CHR 0x81],
      [CHR 0xE2, CHR 0x80, CHR 0x82], [CHR 0xE2, CHR 0x80, CHR 0x83],
      [CHR 0xE2, CHR 0x80, CHR 0x84], [CHR 0xE2, CHR 0x80, CHR 0x85],
      [CHR 0xE2, CHR 0x80, CHR 0x86], [CHR 0xE2, CHR 0x80, CHR 0x87],
      [CHR 0xE2, CHR 0x80, CHR 0x88], [CHR 0xE2, CHR 0x80, CHR 0x89],
      [CHR 0xE2, CHR 0x80, CHR 0x8A],
      [CHR 0xE2, CHR 0x80, CHR 0xA8], [CHR 0xE2, CHR 0x80, CHR 0xA9],
      [CHR 0xE2, CHR 0x80, CHR 0xAF],
      [CHR 0xE2, CHR 0x81, CHR 0x9F],
      [CHR 0xE3, CHR 0x80, CHR 0x80]]"

function TrimLeft :: "string \<Rightarrow> string" where
  "TrimLeft s =
     (case find (\<lambda>w. prefix w s) space_seqs of
        None \<Rightarrow> s
      | Some w \<Rightarrow> TrimLeft (drop (length w) s))"
  by pat_completeness auto
termination
proof (relation "measure length")
  fix s w
  assume "find (\<lambda>w. prefix w s) space_seqs = Some w"
  then have "w \<in> set space_seqs" and "prefix w s"
    by (auto simp: find_Some_iff)
  then have "w \<noteq> []" and "length w \<le> length s"
    by (auto simp: space_seqs_def prefix_length_le)
  then show "(drop (length w) s, s) \<in> measure length"
    by (cases w) auto
qed simp

function TrimRight :: "string \<Rightarrow> string" where
  "TrimRight s =
     (case find (\<lambda>w. suffix w s) space_seqs of
        None \<Rightarrow> s
      | Some w \<Rightarrow> TrimRight (take (length s - length w) s))"
  by pat_completeness auto
termination
proof (relation "measure length")
  fix s w
  assume "find (\<lambda>w. suffix w s) space_seqs = Some w"
  then have "w \<in> set space_seqs" and "suffix w s"
    by (auto simp: find_Some_iff)
  then have "w \<noteq> []" and "length w \<le> length s"
    by (auto simp: space_seqs_def suffix_length_le)
  then show "(take (length s - length w) s, s) \<in> measure length"
    by (cases w) auto
qed simp

declare TrimLeft.simps [simp del]
declare TrimRight.simps [simp del]

definition TrimSpace :: "string \<Rightarrow> string" where
  "TrimSpace s = TrimRight (TrimLeft s)"

text \<open>\<^verbatim>\<open>strings.Cut(s, ":")\<close>: the text before and after the first colon, and whether
  there is one; without a colon the whole of \<open>s\<close> and the empty string.\<close>

definition Cut :: "string \<Rightarrow> char \<Rightarrow> string \<times> string \<times> bool" where
  "Cut s sep =
     (if sep \<in> set s
      then (takeWhile (\<lambda>c. c \<noteq> sep) s, tl (dropWhile (\<lambda>c. c \<noteq> sep) s), True)
      else (s, [], False))"

section \<open>The node converter\<close>

text \<open>\<^verbatim>\<open>GetTypeID\<close> (main.go, 157--166).\<close>

definition GetTypeID :: "globals \<Rightarrow> TypeID \<Rightarrow> TypeID option" where
  "GetTypeID g t =
     (if isDereference g then UnderlyingType (reader g) t else Some t)"

text \<open>The exported nodes: the structs \<^verbatim>\<open>BTFVoid\<close> to \<^verbatim>\<open>BTFFloat\<close> of main.go, one
  constructor each, with the fields in the order of the Go declaration but for
  \<^verbatim>\<open>TypeName\<close>, which is fixed by the constructor (\<open>GetTypeName\<close>).  A field of map or
  slice type that may stay unassigned is an option, \<open>None\<close> for \<^verbatim>\<open>nil\<close>.\<close>

record BTFStructMember =
  sm_Name :: string
  sm_Type :: TypeID
  sm_Offset :: "32 word"
  sm_BitFieldSize :: "32 word"
  sm_Size :: int

record BTFEnumValue =
  ev_Name :: string
  ev_Value :: "64 word"

record BTFFuncParam =
  fp_Name :: string
  fp_Type :: TypeID

record BTFVarSecInfo =
  vi_Type :: TypeID
  vi_Offset :: "32 word"
  vi_Size :: "32 word"

datatype BTFType =
    BTFVoid
  | BTFInt string "32 word" string
  | BTFPointer TypeID
  | BTFArray TypeID TypeID "32 word"
  | BTFStruct "32 word" string "(string \<times> BTFStructMember) list option"
      "BTFStructMember list option"
  | BTFUnion "32 word" string "(string \<times> BTFStructMember) list option"
      "BTFStructMember list option"
  | BTFEnum string "32 word" bool "(64 word \<times> BTFEnumValue) list option"
      "BTFEnumValue list option"
  | BTFFwd string string
  | BTFTypeDef string TypeID
  | BTFVolatile TypeID
  | BTFConst TypeID
  | BTFRestrict TypeID
  | BTFFunc string TypeID string
  | BTFFuncProto TypeID "BTFFuncParam list"
  | BTFVar string TypeID string
  | BTFDatasec string "32 word" "BTFVarSecInfo list"
  | BTFFloat string "32 word"

fun GetTypeName :: "BTFType \<Rightarrow> string" where
  "GetTypeName BTFVoid = ''void''"
| "GetTypeName (BTFInt _ _ _) = ''int''"
| "GetTypeName (BTFPointer _) = ''pointer''"
| "GetTypeName (BTFArray _ _ _) = ''array''"
| "GetTypeName (BTFStruct _ _ _ _) = ''struct''"
| "GetTypeName (BTFUnion _ _ _ _) = ''union''"
| "GetTypeName (BTFEnum _ _ _ _ _) = ''enum''"
| "GetTypeName (BTFFwd _ _) = ''fwd''"
| "GetTypeName (BTFTypeDef _ _) = ''typedef''"
| "GetTypeName (BTFVolatile _) = ''volatile''"
| "GetTypeName (BTFConst _) = ''const''"
| "GetTypeName (BTFRestrict _) = ''restrict''"
| "GetTypeName (BTFFunc _ _ _) = ''func''"
| "GetTypeName (BTFFuncProto _ _) = ''funcproto''"
| "GetTypeName (BTFVar _ _ _) = ''var''"
| "GetTypeName (BTFDatasec _ _ _) = ''datasec''"
| "GetTypeName (BTFFloat _ _) = ''float''"

text \<open>The converters of the seventeen categories.  A converter that calls
  \<^verbatim>\<open>GetTypeID\<close> has no result where \<^verbatim>\<open>GetTypeID\<close> has none.\<close>

definition BTFPointerParser :: "globals \<Rightarrow> TypeID \<Rightarrow> BTFType option" where
  "BTFPointerParser g Target = map_option BTFPointer (GetTypeID g Target)"

definition BTFArrayParser :: "globals \<Rightarrow> TypeID \<Rightarrow> TypeID \<Rightarrow> 32 word \<Rightarrow> BTFType option" where
  "BTFArrayParser g Index Type Nelems =
     (case GetTypeID g Index of
        None \<Rightarrow> None
      | Some indexTypeID \<Rightarrow>
          (case GetTypeID g Type of
             None \<Rightarrow> None
           | Some elemTypeID \<Rightarrow> Some (BTFArray indexTypeID elemTypeID Nelems)))"

text \<open>The loop over the members that \<^verbatim>\<open>BTFStructParser\<close> (main.go, 331--345) and
  \<^verbatim>\<open>BTFUnionParser\<close> (main.go, 387--401) share word for word.  \<open>btfMember_of\<close> is the
  \<^verbatim>\<open>BTFStructMember\<close> literal of its body; \<^verbatim>\<open>Offset.Bytes()\<close> is the offset in bits
  divided by 8.  A Go map is an association list with distinct keys: the assignment
  \<^verbatim>\<open>membersMap[member.Name] = btfMember\<close> is \<open>AList.update\<close>.\<close>

definition btfMember_of :: "globals \<Rightarrow> btf_Member \<Rightarrow> TypeID \<Rightarrow> BTFStructMember" where
  "btfMember_of g member memberTypeID =
     \<lparr>sm_Name = m_Name member, sm_Type = memberTypeID,
      sm_Offset = m_Offset member div 8,
      sm_BitFieldSize = m_BitfieldSize member,
      sm_Size = Sizeof (reader g) (m_Type member)\<rparr>"

fun parseMembers ::
  "globals \<Rightarrow> btf_Member list \<Rightarrow> (string \<times> BTFStructMember) list \<Rightarrow> BTFStructMember list
     \<Rightarrow> ((string \<times> BTFStructMember) list \<times> BTFStructMember list) option" where
  "parseMembers g [] membersMap members = Some (membersMap, members)"
| "parseMembers g (member # rest) membersMap members =
     (case GetTypeID g (m_Type member) of
        None \<Rightarrow> None
      | Some memberTypeID \<Rightarrow>
          (let btfMember = btfMember_of g member memberTypeID
           in parseMembers g rest (AList.update (m_Name member) btfMember membersMap)
                (members @ [btfMember])))"

text \<open>\<^verbatim>\<open>BTFStructParser\<close> (main.go, 325--353) and \<^verbatim>\<open>BTFUnionParser\<close> (main.go,
  381--408).  A field that is left unassigned is \<^verbatim>\<open>nil\<close>: \<open>None\<close>.\<close>

definition BTFStructParser ::
  "globals \<Rightarrow> string \<Rightarrow> 32 word \<Rightarrow> btf_Member list \<Rightarrow> BTFType option" where
  "BTFStructParser g Name Size Members =
     (case parseMembers g Members [] [] of
        None \<Rightarrow> None
      | Some (membersMap, members) \<Rightarrow>
          Some (if isAsMap g then BTFStruct Size Name (Some membersMap) None
                else BTFStruct Size Name None (Some members)))"

definition BTFUnionParser ::
  "globals \<Rightarrow> string \<Rightarrow> 32 word \<Rightarrow> btf_Member list \<Rightarrow> BTFType option" where
  "BTFUnionParser g Name Size Members =
     (case parseMembers g Members [] [] of
        None \<Rightarrow> None
      | Some (membersMap, members) \<Rightarrow>
          Some (if isAsMap g then BTFUnion Size Name (Some membersMap) None
                else BTFUnion Size Name None (Some members)))"

text \<open>\<^verbatim>\<open>BTFEnumParser\<close> (main.go, 442--465); the map is
  \<^verbatim>\<open>map[uint64]*BTFEnumValue\<close>, assigned by \<^verbatim>\<open>valuesMap[value.Value] = btfValue\<close>.\<close>

fun parseValues ::
  "btf_EnumValue list \<Rightarrow> (64 word \<times> BTFEnumValue) list \<Rightarrow> BTFEnumValue list
     \<Rightarrow> (64 word \<times> BTFEnumValue) list \<times> BTFEnumValue list" where
  "parseValues [] valuesMap values = (valuesMap, values)"
| "parseValues (v # rest) valuesMap values =
     (let btfValue = \<lparr>ev_Name = e_Name v, ev_Value = e_Value v\<rparr>
      in parseValues rest (AList.update (e_Value v) btfValue valuesMap) (values @ [btfValue]))"

definition BTFEnumParser ::
  "globals \<Rightarrow> string \<Rightarrow> 32 word \<Rightarrow> bool \<Rightarrow> btf_EnumValue list \<Rightarrow> BTFType" where
  "BTFEnumParser g Name Size Signed Values =
     (case parseValues Values [] [] of
        (valuesMap, values) \<Rightarrow>
          (if isAsMap g then BTFEnum Name Size Signed (Some valuesMap) None
           else BTFEnum Name Size Signed None (Some values)))"

text \<open>\<^verbatim>\<open>BTFFuncProtoParser\<close> (main.go, 619--636) and \<^verbatim>\<open>BTFDatasecParser\<close>
  (main.go, 689--707).\<close>

fun parseParams :: "globals \<Rightarrow> btf_FuncParam list \<Rightarrow> BTFFuncParam list \<Rightarrow> BTFFuncParam list option" where
  "parseParams g [] btfFuncParams = Some btfFuncParams"
| "parseParams g (param # rest) btfFuncParams =
     (case GetTypeID g (p_Type param) of
        None \<Rightarrow> None
      | Some paramTypeID \<Rightarrow>
          parseParams g rest
            (btfFuncParams @ [\<lparr>fp_Name = p_Name param, fp_Type = paramTypeID\<rparr>]))"

definition BTFFuncProtoParser :: "globals \<Rightarrow> TypeID \<Rightarrow> btf_FuncParam list \<Rightarrow> BTFType option" where
  "BTFFuncProtoParser g Return Params =
     (case GetTypeID g Return of
        None \<Rightarrow> None
      | Some returnTypeID \<Rightarrow> map_option (BTFFuncProto returnTypeID) (parseParams g Params []))"

fun parseVars :: "globals \<Rightarrow> btf_VarSecinfo list \<Rightarrow> BTFVarSecInfo list \<Rightarrow> BTFVarSecInfo list option" where
  "parseVars g [] btfVarSecInfos = Some btfVarSecInfos"
| "parseVars g (varSecInfo # rest) btfVarSecInfos =
     (case GetTypeID g (s_Type varSecInfo) of
        None \<Rightarrow> None
      | Some TypeID \<Rightarrow>
          parseVars g rest
            (btfVarSecInfos @ [\<lparr>vi_Type = TypeID, vi_Offset = s_Offset varSecInfo,
                                 vi_Size = s_Size varSecInfo\<rparr>]))"

definition BTFDatasecParser :: "globals \<Rightarrow> string \<Rightarrow> 32 word \<Rightarrow> btf_VarSecinfo list \<Rightarrow> BTFType option" where
  "BTFDatasecParser g Name Size Vars = map_option (BTFDatasec Name Size) (parseVars g Vars [])"

text \<open>\<^verbatim>\<open>BTFTypeParser\<close> (main.go, 173--218).  The argument is \<open>None\<close> for the
  \<^verbatim>\<open>nil\<close> that a failed \<^verbatim>\<open>reader.TypeByID\<close> leaves: the type switch then panics in its
  default case, and in verbose mode \<^verbatim>\<open>reflect.TypeOf(t).Elem()\<close> panics before it.
  What verbose mode prints is not modelled.  The converters without a reference
  (void, int, fwd, float) and with one reference are written in place.\<close>

fun BTFTypeParser :: "globals \<Rightarrow> btf_Type option \<Rightarrow> (error + BTFType) option" where
  "BTFTypeParser g None = Some (Inl (if isVerbose g then NilDereference else UnknownType))"
| "BTFTypeParser g (Some btf_Void) = Some (Inr BTFVoid)"
| "BTFTypeParser g (Some (btf_Int Name Size Encoding)) = Some (Inr (BTFInt Name Size Encoding))"
| "BTFTypeParser g (Some (btf_Pointer Target)) = map_option Inr (BTFPointerParser g Target)"
| "BTFTypeParser g (Some (btf_Array Index Type Nelems)) =
     map_option Inr (BTFArrayParser g Index Type Nelems)"
| "BTFTypeParser g (Some (btf_Struct Name Size Members)) =
     map_option Inr (BTFStructParser g Name Size Members)"
| "BTFTypeParser g (Some (btf_Union Name Size Members)) =
     map_option Inr (BTFUnionParser g Name Size Members)"
| "BTFTypeParser g (Some (btf_Enum Name Size Signed Values)) =
     Some (Inr (BTFEnumParser g Name Size Signed Values))"
| "BTFTypeParser g (Some (btf_Fwd Name Kind)) = Some (Inr (BTFFwd Name Kind))"
| "BTFTypeParser g (Some (btf_Typedef Name Type)) =
     map_option (\<lambda>typeID. Inr (BTFTypeDef Name typeID)) (GetTypeID g Type)"
| "BTFTypeParser g (Some (btf_Volatile Type)) =
     map_option (\<lambda>typeID. Inr (BTFVolatile typeID)) (GetTypeID g Type)"
| "BTFTypeParser g (Some (btf_Const Type)) =
     map_option (\<lambda>typeID. Inr (BTFConst typeID)) (GetTypeID g Type)"
| "BTFTypeParser g (Some (btf_Restrict Type)) =
     map_option (\<lambda>typeID. Inr (BTFRestrict typeID)) (GetTypeID g Type)"
| "BTFTypeParser g (Some (btf_Func Name Type Linkage)) =
     map_option (\<lambda>typeID. Inr (BTFFunc Name typeID Linkage)) (GetTypeID g Type)"
| "BTFTypeParser g (Some (btf_FuncProto Return Params)) =
     map_option Inr (BTFFuncProtoParser g Return Params)"
| "BTFTypeParser g (Some (btf_Var Name Type Linkage)) =
     map_option (\<lambda>typeID. Inr (BTFVar Name typeID Linkage)) (GetTypeID g Type)"
| "BTFTypeParser g (Some (btf_Datasec Name Size Vars)) =
     map_option Inr (BTFDatasecParser g Name Size Vars)"
| "BTFTypeParser g (Some (btf_Float Name Size)) = Some (Inr (BTFFloat Name Size))"

section \<open>The dependency extractor\<close>

text \<open>The \<^verbatim>\<open>GetDependencies\<close> methods.  Those of \<^verbatim>\<open>BTFStruct\<close> and \<^verbatim>\<open>BTFUnion\<close>
  (main.go, 359--371 and 414--426) iterate over a Go map when \<^verbatim>\<open>isAsMap\<close> is set.  Go
  does not fix the order of \<^verbatim>\<open>range\<close> over a map: the order is an argument \<open>ord\<close>,
  which proposes an arrangement of the entries and is followed when the arrangement is a
  permutation of them.\<close>

type_synonym map_order =
  "(string \<times> BTFStructMember) list \<Rightarrow> (string \<times> BTFStructMember) list"

definition range_map :: "map_order \<Rightarrow> (string \<times> BTFStructMember) list \<Rightarrow> (string \<times> BTFStructMember) list" where
  "range_map ord es = (if mset (ord es) = mset es then ord es else es)"

fun GetDependencies :: "globals \<Rightarrow> map_order \<Rightarrow> BTFType \<Rightarrow> TypeID list" where
  "GetDependencies g ord BTFVoid = []"
| "GetDependencies g ord (BTFInt _ _ _) = []"
| "GetDependencies g ord (BTFPointer TargetType) = [TargetType]"
| "GetDependencies g ord (BTFArray IndexType ElemType Count) = [IndexType, IndexType]"
| "GetDependencies g ord (BTFStruct Size Name MembersMap Members) =
     (if isAsMap g
      then (case MembersMap of None \<Rightarrow> [] | Some es \<Rightarrow> map (\<lambda>(k, i). sm_Type i) (range_map ord es))
      else (case Members of None \<Rightarrow> [] | Some l \<Rightarrow> map sm_Type l))"
| "GetDependencies g ord (BTFUnion Size Name MembersMap Members) =
     (if isAsMap g
      then (case MembersMap of None \<Rightarrow> [] | Some es \<Rightarrow> map (\<lambda>(k, i). sm_Type i) (range_map ord es))
      else (case Members of None \<Rightarrow> [] | Some l \<Rightarrow> map sm_Type l))"
| "GetDependencies g ord (BTFEnum _ _ _ _ _) = []"
| "GetDependencies g ord (BTFFwd _ _) = []"
| "GetDependencies g ord (BTFTypeDef Name Type) = [Type]"
| "GetDependencies g ord (BTFVolatile Type) = [Type]"
| "GetDependencies g ord (BTFConst Type) = [Type]"
| "GetDependencies g ord (BTFRestrict Type) = [Type]"
| "GetDependencies g ord (BTFFunc Name Type Linkage) = [Type]"
| "GetDependencies g ord (BTFFuncProto Return Params) = Return # map fp_Type Params"
| "GetDependencies g ord (BTFVar Name Type Linkage) = [Type]"
| "GetDependencies g ord (BTFDatasec Name Size Vars) = map vi_Type Vars"
| "GetDependencies g ord (BTFFloat _ _) = []"

section \<open>The root resolver\<close>

text \<open>\<^verbatim>\<open>NameToBTFType\<close> (main.go, 54--92); the \<^verbatim>\<open>panic\<close> of the default case is
  \<open>Inl BadCategory\<close>.\<close>

definition NameToBTFType :: "string \<Rightarrow> error + Kind" where
  "NameToBTFType name0 =
     (let name = TrimSpace name0 in
      if name = ''void'' then Inr KVoid
      else if name = ''int'' then Inr KInt
      else if name = ''pointer'' then Inr KPointer
      else if name = ''array'' then Inr KArray
      else if name = ''struct'' then Inr KStruct
      else if name = ''union'' then Inr KUnion
      else if name = ''enum'' then Inr KEnum
      else if name = ''fwd'' then Inr KFwd
      else if name = ''typedef'' then Inr KTypedef
      else if name = ''volatile'' then Inr KVolatile
      else if name = ''restrict'' then Inr KRestrict
      else if name = ''func'' then Inr KFunc
      else if name = ''funcproto'' then Inr KFuncProto
      else if name = ''var'' then Inr KVar
      else if name = ''Datasec'' then Inr KDatasec
      else if name = ''Float'' then Inr KFloat
      else Inl BadCategory)"

text \<open>The body of the first loop of \<^verbatim>\<open>WalkForTargetTypes\<close> (main.go, 110--127): one
  target is resolved to the ID that is appended to the queue.\<close>

definition ResolveTarget :: "globals \<Rightarrow> string \<Rightarrow> error + TypeID" where
  "ResolveTarget g name0 =
     (let name = TrimSpace name0 in
      case Cut name CHR '':'' of
        (a, b, True) \<Rightarrow>
          (case NameToBTFType a of
             Inl e \<Rightarrow> Inl e
           | Inr k \<Rightarrow> TypeByName (reader g) b k)
      | (a, b, False) \<Rightarrow> AnyTypeByName (reader g) name)"

fun ResolveTargets :: "globals \<Rightarrow> string list \<Rightarrow> TypeID list \<Rightarrow> error + TypeID list" where
  "ResolveTargets g [] queue = Inr queue"
| "ResolveTargets g (name # names) queue =
     (case ResolveTarget g name of
        Inl e \<Rightarrow> Inl e
      | Inr foundID \<Rightarrow> ResolveTargets g names (queue @ [foundID]))"

section \<open>The traversal engine\<close>

text \<open>The second loop of \<^verbatim>\<open>WalkForTargetTypes\<close> (main.go, 129--142).  The last argument
  records the IDs handed to \<^verbatim>\<open>BTFTypeParser\<close>, in the order of the calls; the program
  itself keeps only \<open>results\<close>.\<close>

function WalkLoop ::
  "globals \<Rightarrow> map_order \<Rightarrow> TypeID list \<Rightarrow> (TypeID \<rightharpoonup> BTFType) \<Rightarrow> TypeID list
     \<Rightarrow> (error + (TypeID \<rightharpoonup> BTFType) \<times> TypeID list) option" where
  "WalkLoop g ord [] results log = Some (Inr (results, log))"
| "WalkLoop g ord (i # queue) results log =
     (case BTFTypeParser g (TypeByID (reader g) i) of
        None \<Rightarrow> None
      | Some (Inl e) \<Rightarrow> Some (Inl e)
      | Some (Inr convertedType) \<Rightarrow>
          (let results' = results(i \<mapsto> convertedType);
               deps = GetDependencies g ord convertedType
           in WalkLoop g ord (queue @ filter (\<lambda>dep. results' dep = None) deps) results'
                (log @ [i])))"
  by pat_completeness auto
termination
proof (relation "measures
    [\<lambda>(g, ord, queue, results, log). card {i. results i = None},
     \<lambda>(g, ord, queue, results, log). length (takeWhile (\<lambda>i. results i \<noteq> None) queue)]")
  show "wf (measures
    [\<lambda>(g, ord, queue, results, log). card {i. results i = None},
     \<lambda>(g, ord, queue, results, log). length (takeWhile (\<lambda>i. results i \<noteq> None) queue)])"
    by simp
next
  fix g :: globals and ord :: map_order and i :: TypeID and queue :: "TypeID list"
    and results :: "TypeID \<rightharpoonup> BTFType" and log :: "TypeID list"
    and x2 x2a results' deps
  assume r: "results' = results(i \<mapsto> x2a)"
  let ?U = "{j. results j = None}" and ?U' = "{j. results' j = None}"
  let ?q' = "queue @ filter (\<lambda>dep. results' dep = None) deps"
  show "((g, ord, ?q', results', log @ [i]), (g, ord, i # queue, results, log))
      \<in> measures
    [\<lambda>(g, ord, queue, results, log). card {i. results i = None},
     \<lambda>(g, ord, queue, results, log). length (takeWhile (\<lambda>i. results i \<noteq> None) queue)]"
  proof (cases "results i")
    case None
    have "?U' = ?U - {i}" using r by auto
    moreover have "i \<in> ?U" using None by simp
    moreover have "finite ?U" by simp
    ultimately have "card ?U' < card ?U"
      using card_Diff1_less [of ?U i] by simp
    then show ?thesis by simp
  next
    case (Some c)
    have NN: "(\<lambda>j. results' j = None) = (\<lambda>j. results j = None)"
      using r Some by (auto simp: fun_eq_iff)
    have PP: "(\<lambda>j. results' j \<noteq> None) = (\<lambda>j. results j \<noteq> None)"
      using r Some by (auto simp: fun_eq_iff)
    have "takeWhile (\<lambda>i. results i \<noteq> None) (filter (\<lambda>dep. results dep = None) deps) = []"
      by (induction deps) auto
    then have "length (takeWhile (\<lambda>i. results i \<noteq> None) (queue @ filter (\<lambda>dep. results dep = None) deps))
        \<le> length (takeWhile (\<lambda>i. results i \<noteq> None) queue)"
      by (induction queue) auto
    then show ?thesis using Some by (simp add: NN PP del: not_None_eq)
  qed
qed

declare WalkLoop.simps [simp del]

definition WalkForTargetTypes ::
  "globals \<Rightarrow> map_order \<Rightarrow> string list \<Rightarrow> (error + (TypeID \<rightharpoonup> BTFType)) option" where
  "WalkForTargetTypes g ord targetTypes =
     (case ResolveTargets g targetTypes [] of
        Inl e \<Rightarrow> Some (Inl e)
      | Inr queue \<Rightarrow> map_option (map_sum id fst) (WalkLoop g ord queue Map.empty []))"

section \<open>Example stores\<close>

text \<open>Nested structs with two members of the same type each:
  \<^verbatim>\<open>struct Pair { int a; int b; }\<close> and \<^verbatim>\<open>struct Quad { struct Pair p; struct Pair q; }\<close>.\<close>

definition nest_store :: Spec where
  "nest_store =
     \<lparr>types =
        [btf_Void,
         btf_Int ''int'' 4 ''signed'',
         btf_Struct ''Pair'' 8
           [\<lparr>m_Name = ''a'', m_Type = 1, m_Offset = 0, m_BitfieldSize = 0\<rparr>,
            \<lparr>m_Name = ''b'', m_Type = 1, m_Offset = 32, m_BitfieldSize = 0\<rparr>],
         btf_Struct ''Quad'' 16
           [\<lparr>m_Name = ''p'', m_Type = 2, m_Offset = 0, m_BitfieldSize = 0\<rparr>,
            \<lparr>m_Name = ''q'', m_Type = 2, m_Offset = 64, m_BitfieldSize = 0\<rparr>]],
      Sizeof = (\<lambda>t. if t = 1 then 4 else if t = 2 then 8 else 0)\<rparr>"

definition nest_globals :: globals where
  "nest_globals =
     \<lparr>reader = nest_store, isDereference = False, isAsMap = False, isVerbose = False\<rparr>"

text \<open>The values of \<^verbatim>\<open>enum E { A = 1, B = 1 }\<close>.\<close>

definition ab_values :: "btf_EnumValue list" where
  "ab_values = [\<lparr>e_Name = ''A'', e_Value = 1\<rparr>, \<lparr>e_Name = ''B'', e_Value = 1\<rparr>]"

text \<open>A store with a wrapper chain (pointer to const int, a typedef of a struct), an array
  and a union with two anonymous members.\<close>

definition demo_store :: Spec where
  "demo_store =
     \<lparr>types =
        [btf_Void,
         btf_Int ''int'' 4 ''signed'',
         btf_Int ''char'' 1 ''char'',
         btf_Struct ''Foo'' 8
           [\<lparr>m_Name = ''v1'', m_Type = 1, m_Offset = 0, m_BitfieldSize = 0\<rparr>,
            \<lparr>m_Name = ''v2'', m_Type = 2, m_Offset = 32, m_BitfieldSize = 0\<rparr>],
         btf_Const 1,
         btf_Pointer 4,
         btf_Typedef ''Foo_t'' 3,
         btf_Array 1 2 4,
         btf_Union ''U'' 4
           [\<lparr>m_Name = [], m_Type = 1, m_Offset = 0, m_BitfieldSize = 0\<rparr>,
            \<lparr>m_Name = [], m_Type = 7, m_Offset = 0, m_BitfieldSize = 0\<rparr>],
         btf_Typedef ''arr_t'' 7],
      Sizeof = (\<lambda>t. if t = 2 then 1 else if t = 3 then 8 else 4)\<rparr>"

definition demo_globals :: "bool \<Rightarrow> bool \<Rightarrow> globals" where
  "demo_globals deref asmap =
     \<lparr>reader = demo_store, isDereference = deref, isAsMap = asmap, isVerbose = False\<rparr>"

text \<open>The union of the store above, at ID 8.\<close>

definition demo_union :: btf_Type where
  "demo_union = btf_Union ''U'' 4
           [\<lparr>m_Name = [], m_Type = 1, m_Offset = 0, m_BitfieldSize = 0\<rparr>,
            \<lparr>m_Name = [], m_Type = 7, m_Offset = 0, m_BitfieldSize = 0\<rparr>]"

text \<open>The struct of the store above, at ID 3, and its two exported forms.\<close>

definition demo_struct :: btf_Type where
  "demo_struct = btf_Struct ''Foo'' 8
           [\<lparr>m_Name = ''v1'', m_Type = 1, m_Offset = 0, m_BitfieldSize = 0\<rparr>,
            \<lparr>m_Name = ''v2'', m_Type = 2, m_Offset = 32, m_BitfieldSize = 0\<rparr>]"

definition demo_struct_as_map :: BTFType where
  "demo_struct_as_map = BTFStruct 8 ''Foo''
     (Some [(''v1'', \<lparr>sm_Name = ''v1'', sm_Type = 1, sm_Offset = 0, sm_BitFieldSize = 0, sm_Size = 4\<rparr>),
            (''v2'', \<lparr>sm_Name = ''v2'', sm_Type = 2, sm_Offset = 4, sm_BitFieldSize = 0, sm_Size = 1\<rparr>)])
     None"

definition demo_struct_as_list :: BTFType where
  "demo_struct_as_list = BTFStruct 8 ''Foo'' None
     (Some [\<lparr>sm_Name = ''v1'', sm_Type = 1, sm_Offset = 0, sm_BitFieldSize = 0, sm_Size = 4\<rparr>,
            \<lparr>sm_Name = ''v2'', sm_Type = 2, sm_Offset = 4, sm_BitFieldSize = 0, sm_Size = 1\<rparr>])"

text \<open>A struct without members, \<^verbatim>\<open>struct empty {}\<close>.\<close>

definition empty_struct :: btf_Type where
  "empty_struct = btf_Struct ''empty'' 0 []"

section \<open>Notions of the specification\<close>

text \<open>The sixteen tokens that the switch of \<^verbatim>\<open>NameToBTFType\<close> and its panic message
  list, each with its category.\<close>

definition category_names :: "(string \<times> Kind) list" where
  "category_names =
     [(''void'', KVoid), (''int'', KInt), (''pointer'', KPointer), (''array'', KArray),
      (''struct'', KStruct), (''union'', KUnion), (''enum'', KEnum), (''fwd'', KFwd),
      (''typedef'', KTypedef), (''volatile'', KVolatile), (''restrict'', KRestrict),
      (''func'', KFunc), (''funcproto'', KFuncProto), (''var'', KVar),
      (''Datasec'', KDatasec), (''Float'', KFloat)]"

text \<open>The two shapes of an exported aggregate: the fields \<^verbatim>\<open>MembersMap\<close> and
  \<^verbatim>\<open>Members\<close> of \<^verbatim>\<open>BTFStruct\<close> and \<^verbatim>\<open>BTFUnion\<close>, \<^verbatim>\<open>ValuesMap\<close> and \<^verbatim>\<open>Values\<close>
  of \<^verbatim>\<open>BTFEnum\<close>; a shape is populated when its field is not \<^verbatim>\<open>nil\<close>.\<close>

fun MembersMap :: "BTFType \<Rightarrow> (string \<times> BTFStructMember) list option" where
  "MembersMap (BTFStruct _ _ mm _) = mm"
| "MembersMap (BTFUnion _ _ mm _) = mm"
| "MembersMap _ = None"

fun Members :: "BTFType \<Rightarrow> BTFStructMember list option" where
  "Members (BTFStruct _ _ _ l) = l"
| "Members (BTFUnion _ _ _ l) = l"
| "Members _ = None"

fun has_map :: "BTFType \<Rightarrow> bool" where
  "has_map (BTFEnum _ _ _ vm _) = (vm \<noteq> None)"
| "has_map v = (MembersMap v \<noteq> None)"

fun has_list :: "BTFType \<Rightarrow> bool" where
  "has_list (BTFEnum _ _ _ _ l) = (l \<noteq> None)"
| "has_list v = (Members v \<noteq> None)"

fun btf_Members :: "btf_Type \<Rightarrow> btf_Member list" where
  "btf_Members (btf_Struct _ _ ms) = ms"
| "btf_Members (btf_Union _ _ ms) = ms"
| "btf_Members _ = []"

text \<open>The JSON output: the four fields are tagged \<^verbatim>\<open>omitempty\<close> (main.go, 313--314,
  377--378, 433--434), so \<^verbatim>\<open>json.Marshal\<close> writes such a field only when it is neither
  \<^verbatim>\<open>nil\<close> nor empty.  \<open>elements\<close> is the number of members or values of a node of the
  store.\<close>

definition emitted :: "'a list option \<Rightarrow> bool" where
  "emitted f = (case f of None \<Rightarrow> False | Some xs \<Rightarrow> xs \<noteq> [])"

fun emits_map :: "BTFType \<Rightarrow> bool" where
  "emits_map (BTFEnum _ _ _ vm _) = emitted vm"
| "emits_map v = emitted (MembersMap v)"

fun emits_list :: "BTFType \<Rightarrow> bool" where
  "emits_list (BTFEnum _ _ _ _ l) = emitted l"
| "emits_list v = emitted (Members v)"

fun elements :: "btf_Type \<Rightarrow> nat" where
  "elements (btf_Struct _ _ ms) = length ms"
| "elements (btf_Union _ _ ms) = length ms"
| "elements (btf_Enum _ _ _ vs) = length vs"
| "elements _ = 0"

text \<open>Stripping wrappers (spec 4.3): \<open>unwraps s i j\<close> when the node \<open>i\<close> is a const,
  volatile, restrict or typedef wrapper with the inner reference \<open>j\<close>; \<open>strips_to s r i\<close>
  when \<open>i\<close> is the first node that is no wrapper on the chain from \<open>r\<close>.\<close>

definition unwraps :: "Spec \<Rightarrow> TypeID \<Rightarrow> TypeID \<Rightarrow> bool" where
  "unwraps s i j = (case TypeByID s i of None \<Rightarrow> False | Some t \<Rightarrow> qualify t = Some j)"

definition strips_to :: "Spec \<Rightarrow> TypeID \<Rightarrow> TypeID \<Rightarrow> bool" where
  "strips_to s r i = ((unwraps s)\<^sup>*\<^sup>* r i \<and> (\<forall>j. \<not> unwraps s i j))"

text \<open>The node a target names (spec 4.4): a bare name is the name of the node; a pair
  \<^verbatim>\<open>category:name\<close> gives the category and the name of the node.\<close>

definition names_target :: "string \<Rightarrow> btf_Type \<Rightarrow> bool" where
  "names_target target t =
     (case Cut (TrimSpace target) CHR '':'' of
        (a, b, True) \<Rightarrow> NameToBTFType a = Inr (kind_of t) \<and> TypeName t = b
      | (a, b, False) \<Rightarrow> TypeName t = TrimSpace target)"

text \<open>The traversal in the words of the specification (4.5, 8): \<open>converted g i\<close> is the
  node converter applied to the node of the store with the ID \<open>i\<close>, \<open>deps_of\<close> the
  dependency set of the converted node, and a set of IDs is closed when it contains the
  dependency set of each of its members.  \<open>reach g ord res q\<close> is the set of the IDs that
  the loop meets from the queue \<open>q\<close> and the result mapping \<open>res\<close>: the queued IDs, and
  the dependencies, not yet keys of \<open>res\<close>, of the IDs it meets.\<close>

definition converted :: "globals \<Rightarrow> TypeID \<Rightarrow> (error + BTFType) option" where
  "converted g i = BTFTypeParser g (TypeByID (reader g) i)"

definition deps_of :: "globals \<Rightarrow> map_order \<Rightarrow> TypeID \<Rightarrow> TypeID set" where
  "deps_of g ord k =
     (case converted g k of Some (Inr c) \<Rightarrow> set (GetDependencies g ord c) | _ \<Rightarrow> {})"

definition dep_closed :: "globals \<Rightarrow> map_order \<Rightarrow> TypeID set \<Rightarrow> bool" where
  "dep_closed g ord S = (\<forall>k\<in>S. deps_of g ord k \<subseteq> S)"

inductive_set reach :: "globals \<Rightarrow> map_order \<Rightarrow> (TypeID \<rightharpoonup> BTFType) \<Rightarrow> TypeID list \<Rightarrow> TypeID set"
  for g :: globals and ord :: map_order and res :: "TypeID \<rightharpoonup> BTFType" and q :: "TypeID list"
  where
    start: "i \<in> set q \<Longrightarrow> i \<in> reach g ord res q"
  | step: "k \<in> reach g ord res q \<Longrightarrow> d \<in> deps_of g ord k \<Longrightarrow> res d = None
            \<Longrightarrow> d \<in> reach g ord res q"

definition conv_on :: "globals \<Rightarrow> TypeID set \<Rightarrow> (TypeID \<rightharpoonup> BTFType)" where
  "conv_on g S = (\<lambda>k. if k \<in> S then (case converted g k of Some (Inr c) \<Rightarrow> Some c | _ \<Rightarrow> None) else None)"

text \<open>The references that a node of the store holds.  The globals are well formed when
  the store has no more nodes than there are IDs and every reference held by a node of
  the store is the ID of a node of the store that \<^verbatim>\<open>GetTypeID\<close> resolves (which it
  does whenever the dereference flag is unset).\<close>

fun refs_of :: "btf_Type \<Rightarrow> TypeID list" where
  "refs_of (btf_Pointer Target) = [Target]"
| "refs_of (btf_Array Index Type Nelems) = [Index, Type]"
| "refs_of (btf_Struct Name Size Ms) = map m_Type Ms"
| "refs_of (btf_Union Name Size Ms) = map m_Type Ms"
| "refs_of (btf_Typedef Name Type) = [Type]"
| "refs_of (btf_Volatile Type) = [Type]"
| "refs_of (btf_Const Type) = [Type]"
| "refs_of (btf_Restrict Type) = [Type]"
| "refs_of (btf_Func Name Type Linkage) = [Type]"
| "refs_of (btf_FuncProto Return Params) = Return # map p_Type Params"
| "refs_of (btf_Var Name Type Linkage) = [Type]"
| "refs_of (btf_Datasec Name Size Vars) = map s_Type Vars"
| "refs_of _ = []"

definition well_formed :: "globals \<Rightarrow> bool" where
  "well_formed g =
     (length (types (reader g)) \<le> 2 ^ 32 \<and>
      (\<forall>t\<in>set (types (reader g)). \<forall>r\<in>set (refs_of t).
          TypeByID (reader g) r \<noteq> None \<and> GetTypeID g r \<noteq> None))"

section \<open>Verified properties\<close>

subsection \<open>The category tokens\<close>

text \<open>
  C4 (as stated, refuted).  The specification has the category token succeed for
  \<^verbatim>\<open>datasec\<close> and \<^verbatim>\<open>float\<close>.  The switch of \<^verbatim>\<open>NameToBTFType\<close> spells these two
  tokens \<^verbatim>\<open>Datasec\<close> and \<^verbatim>\<open>Float\<close>, as its panic message does: the lower-case tokens
  panic.
\<close>

theorem C4_counterexample:
  "NameToBTFType ''float'' = Inl BadCategory \<and> NameToBTFType ''datasec'' = Inl BadCategory"
  by code_simp

text \<open>
  C4 (amended).  For every token other than \<^verbatim>\<open>const\<close>, \<^verbatim>\<open>NameToBTFType\<close> trims the
  white space around the token, returns the category of the token when the rest is one
  of the sixteen tokens of \<open>category_names\<close>, and panics otherwise.
\<close>

theorem C4_category_tokens:
  assumes "TrimSpace tok \<noteq> ''const''"
  shows "NameToBTFType tok =
           (case map_of category_names (TrimSpace tok) of
              Some k \<Rightarrow> Inr k
            | None \<Rightarrow> Inl BadCategory)"
  by (simp add: NameToBTFType_def Let_def category_names_def)

theorem C4_category_tokens_witness:
  "TrimSpace '' Float '' \<noteq> ''const'' \<and> NameToBTFType '' Float '' = Inr KFloat"
proof -
  have t: "TrimSpace '' Float '' = ''Float''" by code_simp
  have h: "TrimSpace '' Float '' \<noteq> ''const''" by (simp add: t)
  show ?thesis using C4_category_tokens [OF h] by (simp add: t category_names_def)
qed

subsection \<open>The mapping form of an enum\<close>

lemma parseValues_map_of:
  "map_of (fst (parseValues vs vm l)) k =
     (case filter (\<lambda>v. e_Value v = k) vs of
        [] \<Rightarrow> map_of vm k
      | w # ws \<Rightarrow> Some \<lparr>ev_Name = e_Name (last (w # ws)), ev_Value = k\<rparr>)"
proof (induction vs arbitrary: vm l)
  case Nil
  then show ?case by simp
next
  case (Cons v vs)
  show ?case
    by (simp add: Cons.IH Let_def update_conv' split: list.splits)
qed

lemma parseValues_distinct:
  "distinct (map fst vm) \<Longrightarrow> distinct (map fst (fst (parseValues vs vm l)))"
  by (induction vs arbitrary: vm l) (simp_all add: Let_def distinct_update)

text \<open>
  C3 (as stated, refuted).  The specification keys \<^verbatim>\<open>values_map\<close> by the declared name
  of each value.  \<^verbatim>\<open>BTFEnumParser\<close> keys it by the numeric value
  (\<^verbatim>\<open>valuesMap[value.Value] = btfValue\<close>, a \<^verbatim>\<open>map[uint64]*BTFEnumValue\<close>): of
  \<^verbatim>\<open>enum E { A = 1, B = 1 }\<close> the mapping has the single key 1, bound to \<^verbatim>\<open>B\<close>, and
  no entry for the name \<^verbatim>\<open>A\<close>.
\<close>

theorem C3_counterexample:
  "BTFEnumParser (demo_globals False True) ''E'' 4 False ab_values =
     BTFEnum ''E'' 4 False (Some [(1, \<lparr>ev_Name = ''B'', ev_Value = 1\<rparr>)]) None"
  by code_simp

text \<open>
  C3 (amended).  With the as-map flag set, the enum is exported with the mapping form
  only; the mapping is keyed by the numeric value of the enum values, and a key is bound
  to the name and value of the last declared value with that number.
\<close>

theorem C3_values_map_keyed_by_value:
  assumes "isAsMap g"
  shows "\<exists>vm. BTFEnumParser g Name Size Signed Values = BTFEnum Name Size Signed (Some vm) None
      \<and> distinct (map fst vm)
      \<and> (\<forall>k. map_of vm k =
            (case filter (\<lambda>v. e_Value v = k) Values of
               [] \<Rightarrow> None
             | w # ws \<Rightarrow> Some \<lparr>ev_Name = e_Name (last (w # ws)), ev_Value = k\<rparr>))"
proof -
  obtain vm l where p: "parseValues Values [] [] = (vm, l)"
    by (cases "parseValues Values [] []")
  have "distinct (map fst vm)"
    using parseValues_distinct [of "[]" Values "[]"] p by simp
  moreover have "\<And>k. map_of vm k =
            (case filter (\<lambda>v. e_Value v = k) Values of
               [] \<Rightarrow> None
             | w # ws \<Rightarrow> Some \<lparr>ev_Name = e_Name (last (w # ws)), ev_Value = k\<rparr>)"
    using parseValues_map_of [of Values "[]" "[]"] p by (simp split: list.splits)
  moreover have "BTFEnumParser g Name Size Signed Values = BTFEnum Name Size Signed (Some vm) None"
    using assms p by (simp add: BTFEnumParser_def)
  ultimately show ?thesis by blast
qed

theorem C3_values_map_keyed_by_value_witness:
  "isAsMap (demo_globals False True) \<and>
   (\<exists>vm. BTFEnumParser (demo_globals False True) ''E'' 4 False ab_values =
            BTFEnum ''E'' 4 False (Some vm) None
      \<and> map_of vm 1 = Some \<lparr>ev_Name = ''B'', ev_Value = 1\<rparr> \<and> map_of vm 2 = None)"
proof -
  have h: "isAsMap (demo_globals False True)" by (simp add: demo_globals_def)
  from C3_values_map_keyed_by_value [OF h, of "''E''" 4 False ab_values]
  obtain vm where e: "BTFEnumParser (demo_globals False True) ''E'' 4 False ab_values =
      BTFEnum ''E'' 4 False (Some vm) None"
    and m: "\<And>k. map_of vm k =
            (case filter (\<lambda>v. e_Value v = k) ab_values of
               [] \<Rightarrow> None
             | w # ws \<Rightarrow> Some \<lparr>ev_Name = e_Name (last (w # ws)), ev_Value = k\<rparr>)"
    by blast
  have "map_of vm 1 = Some \<lparr>ev_Name = ''B'', ev_Value = 1\<rparr>" "map_of vm 2 = None"
    by (simp_all add: m ab_values_def)
  with h e show ?thesis by blast
qed

subsection \<open>The nodes of the example store\<close>

lemma demo_nodes:
  "TypeByID demo_store 1 = Some (btf_Int ''int'' 4 ''signed'')"
  "TypeByID demo_store 2 = Some (btf_Int ''char'' 1 ''char'')"
  "TypeByID demo_store 3 = Some demo_struct"
  "TypeByID demo_store 4 = Some (btf_Const 1)"
  "TypeByID demo_store 6 = Some (btf_Typedef ''Foo_t'' 3)"
  "TypeByID demo_store 7 = Some (btf_Array 1 2 4)"
  "TypeByID demo_store 8 = Some demo_union"
  by (simp_all add: TypeByID_def demo_store_def demo_struct_def demo_union_def)

lemma demo_Underlying:
  "UnderlyingType demo_store 1 = Some 1"
  "UnderlyingType demo_store 2 = Some 2"
  "UnderlyingType demo_store 3 = Some 3"
  "UnderlyingType demo_store 7 = Some 7"
  by (subst UnderlyingType.simps, simp add: demo_nodes demo_struct_def)+

lemma demo_Underlying_4: "UnderlyingType demo_store 4 = Some 1"
  by (subst UnderlyingType.simps) (simp add: demo_nodes demo_Underlying)

subsection \<open>The ID resolution rule\<close>

lemma UnderlyingType_step: "unwraps s i j \<Longrightarrow> UnderlyingType s i = UnderlyingType s j"
  by (subst UnderlyingType.simps) (auto simp: unwraps_def split: option.splits)

lemma UnderlyingType_stop: "(\<forall>j. \<not> unwraps s i j) \<Longrightarrow> UnderlyingType s i = Some i"
  by (subst UnderlyingType.simps) (auto simp: unwraps_def split: option.splits)

lemma UnderlyingType_sound: "UnderlyingType s r = Some i \<Longrightarrow> strips_to s r i"
proof (induction s r i rule: UnderlyingType.raw_induct [rotated -1, consumes 1])
  case (1 f s r i)
  show ?case
  proof (cases "\<exists>j. unwraps s r j")
    case True
    then obtain j where j: "unwraps s r j" by blast
    with 1(2) have "f s j = Some i"
      by (auto simp: unwraps_def split: option.splits)
    then have "strips_to s j i" by (rule 1(1))
    with j show ?thesis
      by (auto simp: strips_to_def intro: converse_rtranclp_into_rtranclp)
  next
    case False
    with 1(2) have "i = r"
      by (auto simp: unwraps_def split: option.splits)
    with False show ?thesis by (simp add: strips_to_def)
  qed
qed

lemma UnderlyingType_complete: "strips_to s r i \<Longrightarrow> UnderlyingType s r = Some i"
proof -
  assume "strips_to s r i"
  then have p: "(unwraps s)\<^sup>*\<^sup>* r i" and n: "\<forall>j. \<not> unwraps s i j"
    by (simp_all add: strips_to_def)
  from p show ?thesis
  proof (induction rule: converse_rtranclp_induct)
    case base
    show ?case using n by (rule UnderlyingType_stop)
  next
    case (step a b)
    then show ?case by (simp add: UnderlyingType_step)
  qed
qed



text \<open>
  C6.  \<^verbatim>\<open>GetTypeID\<close> returns the ID \<open>i\<close> for the reference \<open>r\<close> exactly when: the
  dereference flag is unset and \<open>i\<close> is the ID of the referenced node itself; or the flag
  is set and \<open>i\<close> is the first node that is no const, volatile, restrict or typedef
  wrapper on the chain of inner references from \<open>r\<close>.  The result is a function of the
  store, the flag and the reference.
\<close>

theorem C6_GetTypeID:
  "GetTypeID g r = Some i \<longleftrightarrow> (if isDereference g then strips_to (reader g) r i else i = r)"
proof (cases "isDereference g")
  case True
  then show ?thesis
    using UnderlyingType_sound [of "reader g" r i] UnderlyingType_complete [of "reader g" r i]
    by (auto simp: GetTypeID_def)
next
  case False
  then show ?thesis by (auto simp: GetTypeID_def)
qed

theorem C6_GetTypeID_witness:
  "GetTypeID (demo_globals False False) 4 = Some 4 \<and>
   GetTypeID (demo_globals True False) 4 = Some 1 \<and> strips_to demo_store 4 1"
proof -
  have a: "GetTypeID (demo_globals False False) 4 = Some 4"
    by (simp add: GetTypeID_def demo_globals_def)
  have b: "GetTypeID (demo_globals True False) 4 = Some 1"
    by (simp add: GetTypeID_def demo_globals_def demo_Underlying_4)
  from b C6_GetTypeID [of "demo_globals True False" 4 1] have "strips_to demo_store 4 1"
    by (simp add: demo_globals_def)
  with a b show ?thesis by simp
qed

subsection \<open>The loops over members and values\<close>

lemma parseMembers_Some:
  assumes "parseMembers g ms mm l = Some (mm', l')"
  shows "(\<forall>m\<in>set ms. GetTypeID g (m_Type m) \<noteq> None)
    \<and> l' = l @ map (\<lambda>m. btfMember_of g m (the (GetTypeID g (m_Type m)))) ms
    \<and> fst ` set mm' = fst ` set mm \<union> m_Name ` set ms
    \<and> (distinct (map fst mm) \<longrightarrow> distinct (map fst mm'))
    \<and> (\<forall>n. map_of mm' n =
         (case filter (\<lambda>m. m_Name m = n) ms of
            [] \<Rightarrow> map_of mm n
          | w # ws \<Rightarrow> Some (btfMember_of g (last (w # ws))
                             (the (GetTypeID g (m_Type (last (w # ws))))))))"
  using assms
proof (induction ms arbitrary: mm l)
  case Nil
  then show ?case by simp
next
  case (Cons m ms)
  from Cons.prems obtain tid where tid: "GetTypeID g (m_Type m) = Some tid"
    and rest: "parseMembers g ms (AList.update (m_Name m) (btfMember_of g m tid) mm)
                 (l @ [btfMember_of g m tid]) = Some (mm', l')"
    by (auto simp: Let_def split: option.splits)
  note ih = Cons.IH [OF rest]
  show ?case
    using ih tid
    by (auto simp: update_conv' distinct_update dom_update image_Un
         simp flip: dom_map_of_conv_image_fst split: list.splits)
qed

lemma parseMembers_total:
  "(\<forall>m\<in>set ms. GetTypeID g (m_Type m) \<noteq> None) \<Longrightarrow> \<exists>r. parseMembers g ms mm l = Some r"
  by (induction ms arbitrary: mm l) (auto simp: Let_def)

lemma GetTypeID_isAsMap [simp]: "GetTypeID (g\<lparr>isAsMap := b\<rparr>) t = GetTypeID g t"
  by (simp add: GetTypeID_def)

lemma btfMember_of_isAsMap [simp]: "btfMember_of (g\<lparr>isAsMap := b\<rparr>) m t = btfMember_of g m t"
  by (simp add: btfMember_of_def)

lemma parseMembers_isAsMap [simp]:
  "parseMembers (g\<lparr>isAsMap := b\<rparr>) ms mm l = parseMembers g ms mm l"
  by (induction ms arbitrary: mm l) (simp_all add: Let_def split: option.splits)

lemma not_distinct_card: "\<not> distinct xs \<Longrightarrow> card (set xs) < length xs"
  using card_distinct [of xs] card_length [of xs] by linarith

lemma parseMembers_empty:
  assumes "parseMembers g ms [] [] = Some (mm, l)"
  shows "(mm = []) = (ms = [])" and "(l = []) = (ms = [])"
proof -
  from parseMembers_Some [OF assms] have k: "fst ` set mm = m_Name ` set ms"
    and l: "l = map (\<lambda>m. btfMember_of g m (the (GetTypeID g (m_Type m)))) ms"
    by simp_all
  from k show "(mm = []) = (ms = [])"
    by (metis image_is_empty set_empty)
  from l show "(l = []) = (ms = [])" by simp
qed

lemma parseValues_keys:
  "fst ` set (fst (parseValues vs vm l)) = fst ` set vm \<union> e_Value ` set vs"
  by (induction vs arbitrary: vm l) (auto simp: Let_def dom_update)

lemma parseValues_list:
  "snd (parseValues vs vm l) = l @ map (\<lambda>v. \<lparr>ev_Name = e_Name v, ev_Value = e_Value v\<rparr>) vs"
  by (induction vs arbitrary: vm l) (simp_all add: Let_def)

lemma parseValues_empty:
  assumes "parseValues vs [] [] = (vm, l)"
  shows "(vm = []) = (vs = [])" and "(l = []) = (vs = [])"
proof -
  from parseValues_keys [of vs "[]" "[]"] assms have "fst ` set vm = e_Value ` set vs" by simp
  then show "(vm = []) = (vs = [])"
    by (metis image_is_empty set_empty)
  from parseValues_list [of vs "[]" "[]"] assms show "(l = []) = (vs = [])" by simp
qed

subsection \<open>One shape for each aggregate\<close>

text \<open>
  C7 (as stated, refuted).  The specification has exactly one of the two shapes non-empty
  and present in the output of every struct, union and enum node, never neither.  A node
  without members or values is exported with an empty list (or an empty mapping), which
  the \<^verbatim>\<open>omitempty\<close> tag keeps out of the JSON output: \<^verbatim>\<open>struct empty {}\<close> shows neither
  \<^verbatim>\<open>members\<close> nor \<^verbatim>\<open>members_map\<close>.
\<close>

theorem C7_counterexample:
  "BTFTypeParser (demo_globals False False) (Some empty_struct) =
     Some (Inr (BTFStruct 0 ''empty'' None (Some []))) \<and>
   \<not> emits_map (BTFStruct 0 ''empty'' None (Some [])) \<and>
   \<not> emits_list (BTFStruct 0 ''empty'' None (Some []))"
  by (simp add: empty_struct_def BTFStructParser_def demo_globals_def emitted_def)

text \<open>
  C7 (amended).  The conversion of a struct, union or enum node sets the mapping field
  exactly when the as-map flag is set and the list field exactly when it is not: one of
  the two fields is set, the other is \<^verbatim>\<open>nil\<close>, and the flag alone decides which.  The set
  field is written to the JSON output exactly when the node has at least one member or
  value; the other field is never written.
\<close>

theorem C7_one_shape:
  assumes "kind_of t \<in> {KStruct, KUnion, KEnum}"
    and "BTFTypeParser g (Some t) = Some (Inr v)"
  shows "has_map v = isAsMap g \<and> has_list v = (\<not> isAsMap g)
    \<and> emits_map v = (isAsMap g \<and> elements t \<noteq> 0)
    \<and> emits_list v = (\<not> isAsMap g \<and> elements t \<noteq> 0)"
proof (cases t)
  case (btf_Struct n sz ms)
  with assms(2) obtain mm l where p: "parseMembers g ms [] [] = Some (mm, l)"
    and v: "v = (if isAsMap g then BTFStruct sz n (Some mm) None else BTFStruct sz n None (Some l))"
    by (auto simp: BTFStructParser_def split: option.splits)
  from parseMembers_empty [OF p] v btf_Struct show ?thesis
    by (simp add: emitted_def)
next
  case (btf_Union n sz ms)
  with assms(2) obtain mm l where p: "parseMembers g ms [] [] = Some (mm, l)"
    and v: "v = (if isAsMap g then BTFUnion sz n (Some mm) None else BTFUnion sz n None (Some l))"
    by (auto simp: BTFUnionParser_def split: option.splits)
  from parseMembers_empty [OF p] v btf_Union show ?thesis
    by (simp add: emitted_def)
next
  case (btf_Enum n sz sg vs)
  obtain vm l where p: "parseValues vs [] [] = (vm, l)" by (cases "parseValues vs [] []")
  with assms(2) btf_Enum
  have v: "v = (if isAsMap g then BTFEnum n sz sg (Some vm) None else BTFEnum n sz sg None (Some l))"
    by (simp add: BTFEnumParser_def)
  from parseValues_empty [OF p] v btf_Enum show ?thesis
    by (simp add: emitted_def)
qed (use assms(1) in simp_all)

theorem C7_one_shape_witness:
  "kind_of demo_union \<in> {KStruct, KUnion, KEnum} \<and>
   BTFTypeParser (demo_globals False True) (Some demo_union) =
     Some (Inr (BTFUnion 4 ''U''
       (Some [([], \<lparr>sm_Name = [], sm_Type = 7, sm_Offset = 0, sm_BitFieldSize = 0, sm_Size = 4\<rparr>)])
       None)) \<and>
   emits_map (BTFUnion 4 ''U''
       (Some [([], \<lparr>sm_Name = [], sm_Type = 7, sm_Offset = 0, sm_BitFieldSize = 0, sm_Size = 4\<rparr>)])
       None) \<and>
   \<not> has_list (BTFUnion 4 ''U''
       (Some [([], \<lparr>sm_Name = [], sm_Type = 7, sm_Offset = 0, sm_BitFieldSize = 0, sm_Size = 4\<rparr>)])
       None)"
proof -
  let ?v = "BTFUnion 4 ''U''
       (Some [([], \<lparr>sm_Name = [], sm_Type = 7, sm_Offset = 0, sm_BitFieldSize = 0, sm_Size = 4\<rparr>)])
       None"
  have k: "kind_of demo_union \<in> {KStruct, KUnion, KEnum}" by (simp add: demo_union_def)
  have c: "BTFTypeParser (demo_globals False True) (Some demo_union) = Some (Inr ?v)"
    by code_simp
  have a: "isAsMap (demo_globals False True)" by (simp add: demo_globals_def)
  have e: "elements demo_union \<noteq> 0" by (simp add: demo_union_def)
  from C7_one_shape [OF k c] a e have "emits_map ?v" and "\<not> has_list ?v" by blast+
  with k c show ?thesis by blast
qed


subsection \<open>The root of a traversal is the matched node itself\<close>

lemma unique_match_Inr:
  assumes "unique_match s P = Inr i" and "length (types s) \<le> 2 ^ 32"
  shows "\<exists>t. TypeByID s i = Some t \<and> P t"
proof -
  from assms(1) obtain n where n: "filter (\<lambda>n. P (types s ! n)) [0..<length (types s)] = [n]"
    and i: "i = of_nat n"
    by (auto simp: unique_match_def split: list.splits)
  have "n \<in> set (filter (\<lambda>n. P (types s ! n)) [0..<length (types s)])"
    by (simp add: n)
  then have lt: "n < length (types s)" and P: "P (types s ! n)" by simp_all
  from lt assms(2) have "n < 2 ^ 32" by simp
  then have "unat (of_nat n :: 32 word) = n"
    by (simp add: unat_of_nat)
  with lt P i show ?thesis by (simp add: TypeByID_def)
qed

lemma ResolveTarget_names:
  assumes "ResolveTarget g target = Inr i" and "length (types (reader g)) \<le> 2 ^ 32"
  shows "\<exists>t. TypeByID (reader g) i = Some t \<and> names_target target t"
proof (cases "Cut (TrimSpace target) CHR '':''")
  case (fields a b found)
  show ?thesis
  proof (cases found)
    case True
    with fields assms(1) obtain k where k: "NameToBTFType a = Inr k"
      and m: "TypeByName (reader g) b k = Inr i"
      by (auto simp: ResolveTarget_def Let_def split: sum.splits)
    from m have "unique_match (reader g) (\<lambda>t. kind_of t = k \<and> TypeName t = b) = Inr i"
      by (simp add: TypeByName_def)
    from unique_match_Inr [OF this assms(2)] k fields True show ?thesis
      by (auto simp: names_target_def)
  next
    case False
    with fields assms(1)
    have "unique_match (reader g) (\<lambda>t. TypeName t = TrimSpace target) = Inr i"
      by (simp add: ResolveTarget_def Let_def AnyTypeByName_def)
    from unique_match_Inr [OF this assms(2)] fields False show ?thesis
      by (auto simp: names_target_def)
  qed
qed

text \<open>
  C8.  A target that resolves yields the ID of a node of the store that the target names
  (by name, or by category and name); the dereference flag does not change the result.
  In the store \<open>demo_store\<close> the target \<^verbatim>\<open>typedef:Foo_t\<close> resolves to the typedef's
  own ID 6 also when the flag is set, where \<^verbatim>\<open>GetTypeID\<close> maps a reference to 6 to the
  struct 3.
\<close>

theorem C8_root_own_ID:
  assumes "ResolveTarget g target = Inr i" and "length (types (reader g)) \<le> 2 ^ 32"
  shows "ResolveTarget (g\<lparr>isDereference := d\<rparr>) target = Inr i
    \<and> (\<exists>t. TypeByID (reader g) i = Some t \<and> names_target target t)"
proof -
  have "ResolveTarget (g\<lparr>isDereference := d\<rparr>) target = ResolveTarget g target"
    by (simp add: ResolveTarget_def Let_def split: prod.splits bool.splits sum.splits)
  with assms(1) ResolveTarget_names [OF assms] show ?thesis by simp
qed

theorem C8_root_own_ID_witness:
  "ResolveTarget (demo_globals False False) ''typedef:Foo_t'' = Inr 6 \<and>
   length (types (reader (demo_globals False False))) \<le> 2 ^ 32 \<and>
   ResolveTarget (demo_globals True False) ''typedef:Foo_t'' = Inr 6 \<and>
   GetTypeID (demo_globals True False) 6 = Some 3"
proof -
  have a: "ResolveTarget (demo_globals False False) ''typedef:Foo_t'' = Inr 6" by code_simp
  have l: "length (types (reader (demo_globals False False))) \<le> 2 ^ 32"
    by (simp add: demo_globals_def demo_store_def)
  have e: "(demo_globals False False)\<lparr>isDereference := True\<rparr> = demo_globals True False"
    by (simp add: demo_globals_def)
  from C8_root_own_ID [OF a l, of True] have "ResolveTarget (demo_globals True False) ''typedef:Foo_t'' = Inr 6"
    by (simp add: e)
  moreover have "GetTypeID (demo_globals True False) 6 = Some 3" by code_simp
  ultimately show ?thesis using a l by simp
qed


subsection \<open>Members of the same name in the mapping form\<close>

text \<open>
  C10.  When a struct or union with two or more members of the same name is converted
  with the as-map flag set, \<^verbatim>\<open>members_map\<close> binds every member name to the projection
  of the last member of that name in declaration order, and has fewer entries than the
  list form of the same node has members.
\<close>

theorem C10_last_member_wins:
  assumes asmap: "isAsMap g"
    and agg: "kind_of t \<in> {KStruct, KUnion}"
    and dup: "\<not> distinct (map m_Name (btf_Members t))"
    and conv: "BTFTypeParser g (Some t) = Some (Inr v)"
  shows "\<exists>mm. MembersMap v = Some mm \<and> Members v = None
    \<and> (\<forall>n \<in> m_Name ` set (btf_Members t).
          \<exists>tid. GetTypeID g (m_Type (last (filter (\<lambda>m. m_Name m = n) (btf_Members t)))) = Some tid
            \<and> map_of mm n =
                Some (btfMember_of g (last (filter (\<lambda>m. m_Name m = n) (btf_Members t))) tid))
    \<and> (\<exists>v' l. BTFTypeParser (g\<lparr>isAsMap := False\<rparr>) (Some t) = Some (Inr v')
          \<and> Members v' = Some l \<and> length l = length (btf_Members t) \<and> length mm < length l)"
proof -
  let ?ms = "btf_Members t"
  from agg conv obtain r where r: "parseMembers g ?ms [] [] = Some r"
    by (cases t) (auto simp: BTFStructParser_def BTFUnionParser_def split: option.splits)
  obtain mm l where ml: "r = (mm, l)" by (cases r)
  note pm = parseMembers_Some [OF r [unfolded ml]]
  have v: "MembersMap v = Some mm \<and> Members v = None"
    using agg conv r ml asmap
    by (cases t) (auto simp: BTFStructParser_def BTFUnionParser_def)
  have v': "\<exists>v'. BTFTypeParser (g\<lparr>isAsMap := False\<rparr>) (Some t) = Some (Inr v') \<and> Members v' = Some l"
    using agg r ml
    by (cases t) (auto simp: BTFStructParser_def BTFUnionParser_def)
  have len_l: "length l = length ?ms" using pm by simp
  have "distinct (map fst mm)" using pm by simp
  then have "length mm = card (fst ` set mm)"
    using distinct_card [of "map fst mm"] by simp
  also have "\<dots> = card (set (map m_Name ?ms))" using pm by simp
  also have "\<dots> < length (map m_Name ?ms)" by (rule not_distinct_card [OF dup])
  finally have len_mm: "length mm < length l" using len_l by simp
  have last_wins: "\<exists>tid. GetTypeID g (m_Type (last (filter (\<lambda>m. m_Name m = n) ?ms))) = Some tid
            \<and> map_of mm n = Some (btfMember_of g (last (filter (\<lambda>m. m_Name m = n) ?ms)) tid)"
    if n: "n \<in> m_Name ` set ?ms" for n
  proof -
    let ?f = "filter (\<lambda>m. m_Name m = n) ?ms"
    from n have ne: "?f \<noteq> []" by (auto simp: filter_empty_conv)
    then have "last ?f \<in> set ?f" by (rule last_in_set)
    then have "last ?f \<in> set ?ms" by simp
    with pm obtain tid where tid: "GetTypeID g (m_Type (last ?f)) = Some tid" by auto
    from ne obtain w ws where f: "?f = w # ws" by (cases ?f) auto
    from pm have "map_of mm n = (case ?f of [] \<Rightarrow> map_of [] n
        | w # ws \<Rightarrow> Some (btfMember_of g (last (w # ws)) (the (GetTypeID g (m_Type (last (w # ws)))))))"
      by blast
    then have "map_of mm n = Some (btfMember_of g (last ?f) tid)"
      using tid by (simp add: f)
    with tid show ?thesis by blast
  qed
  from v v' len_l len_mm last_wins show ?thesis by blast
qed

theorem C10_last_member_wins_witness:
  "isAsMap (demo_globals False True) \<and> kind_of demo_union \<in> {KStruct, KUnion} \<and>
   \<not> distinct (map m_Name (btf_Members demo_union)) \<and>
   BTFTypeParser (demo_globals False True) (Some demo_union) =
     Some (Inr (BTFUnion 4 ''U''
       (Some [([], \<lparr>sm_Name = [], sm_Type = 7, sm_Offset = 0, sm_BitFieldSize = 0, sm_Size = 4\<rparr>)])
       None)) \<and>
   (\<exists>v' l. BTFTypeParser (demo_globals False True\<lparr>isAsMap := False\<rparr>) (Some demo_union) = Some (Inr v')
      \<and> Members v' = Some l \<and> length l = 2)"
proof -
  let ?g = "demo_globals False True"
  let ?v = "BTFUnion 4 ''U''
       (Some [([], \<lparr>sm_Name = [], sm_Type = 7, sm_Offset = 0, sm_BitFieldSize = 0, sm_Size = 4\<rparr>)])
       None"
  have a: "isAsMap ?g" by (simp add: demo_globals_def)
  have k: "kind_of demo_union \<in> {KStruct, KUnion}" by (simp add: demo_union_def)
  have d: "\<not> distinct (map m_Name (btf_Members demo_union))" by (simp add: demo_union_def)
  have c: "BTFTypeParser ?g (Some demo_union) = Some (Inr ?v)" by code_simp
  have n: "length (btf_Members demo_union) = 2" by (simp add: demo_union_def)
  from C10_last_member_wins [OF a k d c] n
  have "\<exists>v' l. BTFTypeParser (?g\<lparr>isAsMap := False\<rparr>) (Some demo_union) = Some (Inr v')
      \<and> Members v' = Some l \<and> length l = 2"
    by auto
  with a k d c show ?thesis by blast
qed



subsection \<open>The loop of the traversal\<close>

text \<open>When every ID that the loop meets converts, the loop returns the result mapping it
  started from, overwritten on the IDs it met with their conversions; and when the loop
  returns a result, every ID it met converted.\<close>

lemma WalkLoop_Cons:
  "converted g i = Some (Inr c) \<Longrightarrow>
   WalkLoop g ord (i # queue) res log =
     WalkLoop g ord (queue @ filter (\<lambda>d. (res(i \<mapsto> c)) d = None) (GetDependencies g ord c))
       (res(i \<mapsto> c)) (log @ [i])"
  by (simp add: converted_def Let_def WalkLoop.simps)

lemma WalkLoop_Cons_Inr:
  "WalkLoop g ord (i # queue) res log = Some (Inr r) \<Longrightarrow> \<exists>c. converted g i = Some (Inr c)"
  by (auto simp: converted_def WalkLoop.simps split: option.splits sum.splits)

lemma reach_Nil [simp]: "reach g ord res [] = {}"
proof -
  have "k \<in> reach g ord res [] \<Longrightarrow> False" for k
    by (induction rule: reach.induct) auto
  then show ?thesis by blast
qed

lemma reach_Cons:
  assumes c: "converted g i = Some (Inr c)"
  shows "reach g ord res (i # queue) =
     insert i (reach g ord (res(i \<mapsto> c))
       (queue @ filter (\<lambda>d. (res(i \<mapsto> c)) d = None) (GetDependencies g ord c)))"
    (is "?L = insert i ?R")
proof -
  have di: "deps_of g ord i = set (GetDependencies g ord c)"
    using c by (simp add: deps_of_def)
  have "k \<in> ?L" if "k \<in> ?R" for k
    using that
  proof (induction rule: reach.induct)
    case (start k)
    then have "k \<in> set queue \<or> (k \<in> deps_of g ord i \<and> res k = None)"
      using di by (auto split: if_splits)
    then show ?case
    proof
      assume "k \<in> set queue"
      then show ?thesis by (simp add: reach.start)
    next
      assume "k \<in> deps_of g ord i \<and> res k = None"
      moreover have "i \<in> reach g ord res (i # queue)" by (simp add: reach.start)
      ultimately show ?thesis by (blast intro: reach.step)
    qed
  next
    case (step k d)
    then have "res d = None" by (auto split: if_splits)
    with step show ?case by (blast intro: reach.step)
  qed
  moreover have "i \<in> ?L" by (simp add: reach.start)
  moreover have "k = i \<or> k \<in> ?R" if "k \<in> ?L" for k
    using that
  proof (induction rule: reach.induct)
    case (start k)
    then show ?case by (auto intro: reach.start)
  next
    case (step k d)
    show ?case
    proof (cases "d = i")
      case True
      then show ?thesis by simp
    next
      case False
      with step.hyps have n: "(res(i \<mapsto> c)) d = None" by simp
      from step.IH show ?thesis
      proof
        assume "k = i"
        with step.hyps di n have "d \<in> set (queue @ filter (\<lambda>d. (res(i \<mapsto> c)) d = None) (GetDependencies g ord c))"
          by simp
        then show ?thesis by (blast intro: reach.start)
      next
        assume "k \<in> ?R"
        with step.hyps n show ?thesis by (blast intro: reach.step)
      qed
    qed
  qed
  ultimately show ?thesis by blast
qed

lemma WalkLoop_reach:
  "(\<forall>k \<in> reach g ord res q. \<exists>c. converted g k = Some (Inr c)) \<Longrightarrow>
   \<exists>log'. WalkLoop g ord q res log = Some (Inr (res ++ conv_on g (reach g ord res q), log'))"
proof (induction g ord q res log rule: WalkLoop.induct)
  case (1 g ord results log)
  then show ?case by (simp add: conv_on_def WalkLoop.simps)
next
  case (2 g ord i queue results log)
  have "i \<in> reach g ord results (i # queue)" by (simp add: reach.start)
  with "2.prems" obtain c where c: "converted g i = Some (Inr c)"
    by blast
  let ?res' = "results(i \<mapsto> c)"
  let ?q' = "queue @ filter (\<lambda>d. ?res' d = None) (GetDependencies g ord c)"
  have r: "reach g ord results (i # queue) = insert i (reach g ord ?res' ?q')"
    by (rule reach_Cons [OF c])
  have ok: "\<forall>k \<in> reach g ord ?res' ?q'. \<exists>c. converted g k = Some (Inr c)"
    using "2.prems" r by simp
  from c have c': "BTFTypeParser g (TypeByID (reader g) i) = Some (Inr c)"
    by (simp add: converted_def)
  from "2.IH" [OF c' refl refl refl ok]
  obtain log' where w: "WalkLoop g ord ?q' ?res' (log @ [i])
      = Some (Inr (?res' ++ conv_on g (reach g ord ?res' ?q'), log'))"
    by blast
  have "?res' ++ conv_on g (reach g ord ?res' ?q') = results ++ conv_on g (insert i (reach g ord ?res' ?q'))"
  proof
    fix k
    show "(?res' ++ conv_on g (reach g ord ?res' ?q')) k
        = (results ++ conv_on g (insert i (reach g ord ?res' ?q'))) k"
      using c ok by (auto simp: map_add_def conv_on_def split: option.splits)
  qed
  with w r show ?case
    by (simp add: WalkLoop_Cons [OF c])
qed

lemma WalkLoop_Inr_converted:
  "WalkLoop g ord q res log = Some (Inr r) \<Longrightarrow>
   \<forall>k \<in> reach g ord res q. \<exists>c. converted g k = Some (Inr c)"
proof (induction g ord q res log rule: WalkLoop.induct)
  case (1 g ord results log)
  then show ?case by simp
next
  case (2 g ord i queue results log)
  from "2.prems" obtain c where c: "converted g i = Some (Inr c)"
    using WalkLoop_Cons_Inr by blast
  let ?res' = "results(i \<mapsto> c)"
  let ?q' = "queue @ filter (\<lambda>d. ?res' d = None) (GetDependencies g ord c)"
  from c have c': "BTFTypeParser g (TypeByID (reader g) i) = Some (Inr c)"
    by (simp add: converted_def)
  from "2.prems" have "WalkLoop g ord ?q' ?res' (log @ [i]) = Some (Inr r)"
    by (simp add: WalkLoop_Cons [OF c])
  from "2.IH" [OF c' refl refl refl this]
  have "\<forall>k \<in> reach g ord ?res' ?q'. \<exists>c. converted g k = Some (Inr c)" .
  with c show ?case
    by (auto simp: reach_Cons [OF c])
qed

lemma reach_set_cong: "set q = set q' \<Longrightarrow> reach g ord res q = reach g ord res q'"
proof -
  have "k \<in> reach g ord res b" if "k \<in> reach g ord res a" "set a = set b" for a b k
    using that by (induction rule: reach.induct) (auto intro: reach.start reach.step)
  then show "set q = set q' \<Longrightarrow> reach g ord res q = reach g ord res q'"
    by blast
qed

lemma WalkLoop_set_cong:
  assumes "set q = set q'" and "WalkLoop g ord q res log = Some (Inr (r, l))"
  shows "\<exists>l'. WalkLoop g ord q' res log' = Some (Inr (r, l'))"
proof -
  from WalkLoop_Inr_converted [OF assms(2)]
  have ok: "\<forall>k \<in> reach g ord res q. \<exists>c. converted g k = Some (Inr c)" .
  from WalkLoop_reach [OF ok, of log] assms(2)
  have r: "r = res ++ conv_on g (reach g ord res q)" by auto
  from ok have ok': "\<forall>k \<in> reach g ord res q'. \<exists>c. converted g k = Some (Inr c)"
    by (simp add: reach_set_cong [OF assms(1)])
  from WalkLoop_reach [OF ok', of log'] r show ?thesis
    by (simp add: reach_set_cong [OF assms(1)])
qed

subsection \<open>The dependencies of an array\<close>

text \<open>
  C5.  The converted array node has the index type ID as its only dependency: the list
  that \<^verbatim>\<open>GetDependencies\<close> returns holds the index type ID twice, and holds the element
  type ID only when it is the index type ID.  The traversal tolerates the duplicate:
  with the list queued, the loop returns the result mapping that it returns with the
  index type ID queued once.
\<close>

theorem C5_array_dependencies:
  assumes "BTFTypeParser g (Some (btf_Array Index Type Nelems)) = Some (Inr c)"
  shows "\<exists>idx el. GetTypeID g Index = Some idx \<and> GetTypeID g Type = Some el
      \<and> c = BTFArray idx el Nelems
      \<and> set (GetDependencies g ord c) = {idx}
      \<and> (el \<noteq> idx \<longrightarrow> el \<notin> set (GetDependencies g ord c))
      \<and> (\<forall>q res log r l. WalkLoop g ord (q @ [idx]) res log = Some (Inr (r, l)) \<longrightarrow>
            (\<exists>l'. WalkLoop g ord (q @ GetDependencies g ord c) res log = Some (Inr (r, l'))))"
proof -
  from assms obtain idx el where i: "GetTypeID g Index = Some idx"
    and e: "GetTypeID g Type = Some el" and c: "c = BTFArray idx el Nelems"
    by (auto simp: BTFArrayParser_def split: option.splits)
  have d: "GetDependencies g ord c = [idx, idx]" by (simp add: c)
  have "\<exists>l'. WalkLoop g ord (q @ GetDependencies g ord c) res log = Some (Inr (r, l'))"
    if w: "WalkLoop g ord (q @ [idx]) res log = Some (Inr (r, l))" for q res log r l
  proof -
    have "set (q @ [idx]) = set (q @ GetDependencies g ord c)" by (simp add: d)
    from WalkLoop_set_cong [OF this w] show ?thesis .
  qed
  with i e c d show ?thesis by auto
qed

lemma demo_walk_int:
  "WalkLoop (demo_globals False False) id ([] @ [1]) Map.empty [] =
     Some (Inr ([1 \<mapsto> BTFInt ''int'' 4 ''signed''], [1]))"
  by (simp add: WalkLoop.simps demo_globals_def demo_store_def TypeByID_def)

theorem C5_array_dependencies_witness:
  "BTFTypeParser (demo_globals False False) (Some (btf_Array 1 2 4)) = Some (Inr (BTFArray 1 2 4)) \<and>
   set (GetDependencies (demo_globals False False) id (BTFArray 1 2 4)) = {1} \<and>
   (\<exists>l'. WalkLoop (demo_globals False False) id [1, 1] Map.empty [] =
      Some (Inr ([1 \<mapsto> BTFInt ''int'' 4 ''signed''], l')))"
proof -
  let ?g = "demo_globals False False"
  have c: "BTFTypeParser ?g (Some (btf_Array 1 2 4)) = Some (Inr (BTFArray 1 2 4))"
    by (simp add: BTFArrayParser_def GetTypeID_def demo_globals_def)
  from C5_array_dependencies [OF c, of id]
  have s: "set (GetDependencies ?g id (BTFArray 1 2 4)) = {1}"
    and w: "\<And>q res log r l. WalkLoop ?g id (q @ [1]) res log = Some (Inr (r, l)) \<Longrightarrow>
            (\<exists>l'. WalkLoop ?g id (q @ GetDependencies ?g id (BTFArray 1 2 4)) res log = Some (Inr (r, l')))"
    by (auto simp: GetTypeID_def demo_globals_def)
  from w [OF demo_walk_int]
  have "\<exists>l'. WalkLoop ?g id [1, 1] Map.empty [] = Some (Inr ([1 \<mapsto> BTFInt ''int'' 4 ''signed''], l'))"
    by simp
  with c s show ?thesis by blast
qed

subsection \<open>The dependency extractor and the order of a map\<close>

lemma mset_range_map [simp]: "mset (range_map ord es) = mset es"
  by (simp add: range_map_def)

lemma set_range_map [simp]: "set (range_map ord es) = set es"
  using mset_range_map [of ord es] by (metis set_mset_mset)

lemma GetDependencies_mset:
  "mset (GetDependencies g ord' v) = mset (GetDependencies g ord v)"
  by (cases v) (simp_all split: option.splits)

text \<open>
  C9 (as stated, refuted).  The specification has two invocations of
  \<^verbatim>\<open>GetDependencies\<close> on the same node return the same sequence under either setting of
  the as-map flag.  With the flag set, \<^verbatim>\<open>GetDependencies\<close> iterates over the Go map
  \<^verbatim>\<open>MembersMap\<close>, in an order that Go does not fix: for the struct \<^verbatim>\<open>Foo\<close> exported as
  a map, one order of iteration gives the dependencies 1, 2 and another 2, 1.
\<close>

theorem C9_counterexample:
  "BTFTypeParser (demo_globals False True) (Some demo_struct) = Some (Inr demo_struct_as_map) \<and>
   GetDependencies (demo_globals False True) id demo_struct_as_map = [1, 2] \<and>
   GetDependencies (demo_globals False True) rev demo_struct_as_map = [2, 1]"
  by (simp add: demo_struct_def demo_struct_as_map_def demo_globals_def demo_store_def
      BTFStructParser_def GetTypeID_def btfMember_of_def range_map_def Let_def)

text \<open>
  C9 (amended).  \<^verbatim>\<open>GetDependencies\<close> reads the exported node and the as-map flag, and
  not the store.  Whatever the order of iteration over a map, it returns the same IDs
  with the same multiplicities.  With the flag unset the sequence is the same for every
  invocation, and for a struct or union it is the resolved type IDs of the members in
  the order of the list \<^verbatim>\<open>Members\<close>; with the flag set it has one ID for each entry of
  \<^verbatim>\<open>MembersMap\<close>, in the order of the iteration.
\<close>

theorem C9_GetDependencies:
  "GetDependencies (g\<lparr>reader := s\<rparr>) ord v = GetDependencies g ord v
   \<and> mset (GetDependencies g ord' v) = mset (GetDependencies g ord v)
   \<and> (\<not> isAsMap g \<longrightarrow>
        GetDependencies g ord' v = GetDependencies g ord v
        \<and> (\<forall>l. Members v = Some l \<longrightarrow> GetDependencies g ord v = map sm_Type l))
   \<and> (isAsMap g \<longrightarrow>
        (\<forall>es. MembersMap v = Some es \<longrightarrow>
           mset (GetDependencies g ord v) = mset (map (\<lambda>(k, i). sm_Type i) es)))"
proof -
  have "GetDependencies (g\<lparr>reader := s\<rparr>) ord v = GetDependencies g ord v"
    by (cases v) simp_all
  moreover have "mset (GetDependencies g ord' v) = mset (GetDependencies g ord v)"
    by (rule GetDependencies_mset)
  moreover have "GetDependencies g ord' v = GetDependencies g ord v" if "\<not> isAsMap g"
    using that by (cases v) simp_all
  moreover have "GetDependencies g ord v = map sm_Type l" if "\<not> isAsMap g" "Members v = Some l" for l
    using that by (cases v) simp_all
  moreover have "mset (GetDependencies g ord v) = mset (map (\<lambda>(k, i). sm_Type i) es)"
    if "isAsMap g" "MembersMap v = Some es" for es
    using that by (cases v) simp_all
  ultimately show ?thesis by blast
qed

theorem C9_GetDependencies_witness:
  "isAsMap (demo_globals False True) \<and>
   mset (GetDependencies (demo_globals False True) rev demo_struct_as_map) = mset [1, 2] \<and>
   \<not> isAsMap (demo_globals False False) \<and>
   GetDependencies (demo_globals False False) rev demo_struct_as_list = [1, 2]"
proof -
  have a: "isAsMap (demo_globals False True)" and b: "\<not> isAsMap (demo_globals False False)"
    by (simp_all add: demo_globals_def)
  have m: "MembersMap demo_struct_as_map =
      Some [(''v1'', \<lparr>sm_Name = ''v1'', sm_Type = 1, sm_Offset = 0, sm_BitFieldSize = 0, sm_Size = 4\<rparr>),
            (''v2'', \<lparr>sm_Name = ''v2'', sm_Type = 2, sm_Offset = 4, sm_BitFieldSize = 0, sm_Size = 1\<rparr>)]"
    by (simp add: demo_struct_as_map_def)
  have l: "Members demo_struct_as_list =
      Some [\<lparr>sm_Name = ''v1'', sm_Type = 1, sm_Offset = 0, sm_BitFieldSize = 0, sm_Size = 4\<rparr>,
            \<lparr>sm_Name = ''v2'', sm_Type = 2, sm_Offset = 4, sm_BitFieldSize = 0, sm_Size = 1\<rparr>]"
    by (simp add: demo_struct_as_list_def)
  from C9_GetDependencies [where g = "demo_globals False True" and ord = rev and v = demo_struct_as_map] a m
  have "mset (GetDependencies (demo_globals False True) rev demo_struct_as_map) = mset [1, 2]"
    by simp
  moreover
  from C9_GetDependencies [where g = "demo_globals False False" and ord = rev and v = demo_struct_as_list] b l
  have "GetDependencies (demo_globals False False) rev demo_struct_as_list = [1, 2]"
    by simp
  ultimately show ?thesis using a b by simp
qed


subsection \<open>Conversion in a well-formed store\<close>

lemma TypeByID_in_set: "TypeByID s i = Some t \<Longrightarrow> t \<in> set (types s)"
  by (auto simp: TypeByID_def split: if_splits)

lemma qualify_refs_of: "qualify t = Some j \<Longrightarrow> j \<in> set (refs_of t)"
  by (cases t) auto

lemma strips_to_in_store:
  assumes wf: "well_formed g" and r: "TypeByID (reader g) r \<noteq> None"
    and s: "strips_to (reader g) r i"
  shows "TypeByID (reader g) i \<noteq> None"
proof -
  from s have "(unwraps (reader g))\<^sup>*\<^sup>* r i" by (simp add: strips_to_def)
  then show ?thesis using r
  proof (induction rule: rtranclp_induct)
    case base
    then show ?case .
  next
    case (step a b)
    from step.hyps(2) obtain t where t: "TypeByID (reader g) a = Some t" and q: "qualify t = Some b"
      by (auto simp: unwraps_def split: option.splits)
    from t have "t \<in> set (types (reader g))" by (rule TypeByID_in_set)
    moreover from q have "b \<in> set (refs_of t)" by (rule qualify_refs_of)
    ultimately show ?case using wf by (auto simp: well_formed_def)
  qed
qed

lemma GetTypeID_in_store:
  assumes wf: "well_formed g" and r: "TypeByID (reader g) r \<noteq> None"
    and i: "GetTypeID g r = Some i"
  shows "TypeByID (reader g) i \<noteq> None"
proof (cases "isDereference g")
  case True
  with i have "strips_to (reader g) r i"
    by (simp add: GetTypeID_def UnderlyingType_sound)
  from strips_to_in_store [OF wf r this] show ?thesis .
next
  case False
  with i r show ?thesis by (simp add: GetTypeID_def)
qed

lemma set_update_subset: "set (AList.update k v al) \<subseteq> insert (k, v) (set al)"
  by (induction al) auto

lemma sm_Type_btfMember_of [simp]: "sm_Type (btfMember_of g m tid) = tid"
  by (simp add: btfMember_of_def)

lemma parseMembers_types:
  "parseMembers g ms mm l = Some (mm', l') \<Longrightarrow>
   (\<forall>e\<in>set mm'. e \<in> set mm \<or> (\<exists>m\<in>set ms. GetTypeID g (m_Type m) = Some (sm_Type (snd e))))
   \<and> (\<forall>b\<in>set l'. b \<in> set l \<or> (\<exists>m\<in>set ms. GetTypeID g (m_Type m) = Some (sm_Type b)))"
proof (induction ms arbitrary: mm l)
  case Nil
  then show ?case by simp
next
  case (Cons m ms)
  from Cons.prems obtain tid where tid: "GetTypeID g (m_Type m) = Some tid"
    and rest: "parseMembers g ms (AList.update (m_Name m) (btfMember_of g m tid) mm)
                 (l @ [btfMember_of g m tid]) = Some (mm', l')"
    by (auto simp: Let_def split: option.splits)
  note ih = Cons.IH [OF rest]
  have "e \<in> set mm \<or> (\<exists>x\<in>set (m # ms). GetTypeID g (m_Type x) = Some (sm_Type (snd e)))"
    if e: "e \<in> set mm'" for e
  proof -
    from ih e have "e \<in> set (AList.update (m_Name m) (btfMember_of g m tid) mm)
        \<or> (\<exists>x\<in>set ms. GetTypeID g (m_Type x) = Some (sm_Type (snd e)))"
      by blast
    then show ?thesis
    proof
      assume "e \<in> set (AList.update (m_Name m) (btfMember_of g m tid) mm)"
      with set_update_subset have "e = (m_Name m, btfMember_of g m tid) \<or> e \<in> set mm"
        by fastforce
      with tid show ?thesis by auto
    next
      assume "\<exists>x\<in>set ms. GetTypeID g (m_Type x) = Some (sm_Type (snd e))"
      then show ?thesis by auto
    qed
  qed
  moreover have "b \<in> set l \<or> (\<exists>x\<in>set (m # ms). GetTypeID g (m_Type x) = Some (sm_Type b))"
    if b: "b \<in> set l'" for b
  proof -
    from ih b have "b \<in> set (l @ [btfMember_of g m tid])
        \<or> (\<exists>x\<in>set ms. GetTypeID g (m_Type x) = Some (sm_Type b))"
      by blast
    with tid show ?thesis by auto
  qed
  ultimately show ?case by blast
qed

lemma parseParams_total:
  "(\<forall>p\<in>set ps. GetTypeID g (p_Type p) \<noteq> None) \<Longrightarrow> \<exists>r. parseParams g ps acc = Some r"
  by (induction ps arbitrary: acc) auto

lemma parseParams_types:
  "parseParams g ps acc = Some r \<Longrightarrow>
   fp_Type ` set r \<subseteq> fp_Type ` set acc \<union> {i. \<exists>p\<in>set ps. GetTypeID g (p_Type p) = Some i}"
proof (induction ps arbitrary: acc)
  case Nil
  then show ?case by simp
next
  case (Cons p ps)
  from Cons.prems obtain tid where tid: "GetTypeID g (p_Type p) = Some tid"
    and rest: "parseParams g ps (acc @ [\<lparr>fp_Name = p_Name p, fp_Type = tid\<rparr>]) = Some r"
    by (auto split: option.splits)
  from Cons.IH [OF rest] tid show ?case by auto
qed

lemma parseVars_total:
  "(\<forall>v\<in>set vs. GetTypeID g (s_Type v) \<noteq> None) \<Longrightarrow> \<exists>r. parseVars g vs acc = Some r"
  by (induction vs arbitrary: acc) auto

lemma parseVars_types:
  "parseVars g vs acc = Some r \<Longrightarrow>
   vi_Type ` set r \<subseteq> vi_Type ` set acc \<union> {i. \<exists>v\<in>set vs. GetTypeID g (s_Type v) = Some i}"
proof (induction vs arbitrary: acc)
  case Nil
  then show ?case by simp
next
  case (Cons v vs)
  from Cons.prems obtain tid where tid: "GetTypeID g (s_Type v) = Some tid"
    and rest: "parseVars g vs (acc @ [\<lparr>vi_Type = tid, vi_Offset = s_Offset v, vi_Size = s_Size v\<rparr>]) = Some r"
    by (auto split: option.splits)
  from Cons.IH [OF rest] tid show ?case by auto
qed

lemma BTFTypeParser_total:
  assumes "\<forall>r\<in>set (refs_of t). GetTypeID g r \<noteq> None"
  shows "\<exists>c. BTFTypeParser g (Some t) = Some (Inr c)"
proof (cases t)
  case (btf_Struct n sz ms)
  with assms have "\<forall>m\<in>set ms. GetTypeID g (m_Type m) \<noteq> None" by simp
  from parseMembers_total [OF this, of "[]" "[]"] btf_Struct show ?thesis
    by (auto simp: BTFStructParser_def)
next
  case (btf_Union n sz ms)
  with assms have "\<forall>m\<in>set ms. GetTypeID g (m_Type m) \<noteq> None" by simp
  from parseMembers_total [OF this, of "[]" "[]"] btf_Union show ?thesis
    by (auto simp: BTFUnionParser_def)
next
  case (btf_FuncProto ret ps)
  with assms have "\<forall>p\<in>set ps. GetTypeID g (p_Type p) \<noteq> None" and "GetTypeID g ret \<noteq> None"
    by simp_all
  with parseParams_total [of ps g "[]"] btf_FuncProto show ?thesis
    by (auto simp: BTFFuncProtoParser_def)
next
  case (btf_Datasec n sz vs)
  with assms have "\<forall>v\<in>set vs. GetTypeID g (s_Type v) \<noteq> None" by simp
  from parseVars_total [OF this, of "[]"] btf_Datasec show ?thesis
    by (auto simp: BTFDatasecParser_def)
qed (use assms in \<open>auto simp: BTFPointerParser_def BTFArrayParser_def\<close>)

lemma GetDependencies_resolved:
  assumes "BTFTypeParser g (Some t) = Some (Inr c)"
  shows "set (GetDependencies g ord c) \<subseteq> {i. \<exists>r\<in>set (refs_of t). GetTypeID g r = Some i}"
proof (cases t)
  case (btf_Struct n sz ms)
  with assms obtain mm l where p: "parseMembers g ms [] [] = Some (mm, l)"
    and c: "c = (if isAsMap g then BTFStruct sz n (Some mm) None else BTFStruct sz n None (Some l))"
    by (auto simp: BTFStructParser_def split: option.splits)
  from parseMembers_types [OF p] c btf_Struct show ?thesis
    by (fastforce split: if_splits)
next
  case (btf_Union n sz ms)
  with assms obtain mm l where p: "parseMembers g ms [] [] = Some (mm, l)"
    and c: "c = (if isAsMap g then BTFUnion sz n (Some mm) None else BTFUnion sz n None (Some l))"
    by (auto simp: BTFUnionParser_def split: option.splits)
  from parseMembers_types [OF p] c btf_Union show ?thesis
    by (fastforce split: if_splits)
next
  case (btf_FuncProto ret ps)
  with assms obtain rid r where i: "GetTypeID g ret = Some rid"
    and p: "parseParams g ps [] = Some r" and c: "c = BTFFuncProto rid r"
    by (auto simp: BTFFuncProtoParser_def split: option.splits)
  from parseParams_types [OF p] i c btf_FuncProto show ?thesis by auto
next
  case (btf_Datasec n sz vs)
  with assms obtain r where p: "parseVars g vs [] = Some r" and c: "c = BTFDatasec n sz r"
    by (auto simp: BTFDatasecParser_def)
  from parseVars_types [OF p] c btf_Datasec show ?thesis by auto
next
  case (btf_Enum n sz sg vs)
  with assms show ?thesis
    by (auto simp: BTFEnumParser_def split: prod.splits if_splits)
qed (use assms in \<open>auto simp: BTFPointerParser_def BTFArrayParser_def split: option.splits\<close>)

lemma converted_well_formed:
  assumes wf: "well_formed g" and k: "TypeByID (reader g) k \<noteq> None"
  shows "\<exists>c. converted g k = Some (Inr c)"
    and "\<forall>d \<in> deps_of g ord k. TypeByID (reader g) d \<noteq> None"
proof -
  from k obtain t where t: "TypeByID (reader g) k = Some t" by blast
  then have mem: "t \<in> set (types (reader g))" by (rule TypeByID_in_set)
  with wf have refs: "\<forall>r\<in>set (refs_of t). TypeByID (reader g) r \<noteq> None \<and> GetTypeID g r \<noteq> None"
    by (simp add: well_formed_def)
  then have "\<forall>r\<in>set (refs_of t). GetTypeID g r \<noteq> None" by blast
  from BTFTypeParser_total [OF this] obtain c where c: "BTFTypeParser g (Some t) = Some (Inr c)"
    by blast
  with t show "\<exists>c. converted g k = Some (Inr c)" by (simp add: converted_def)
  show "\<forall>d \<in> deps_of g ord k. TypeByID (reader g) d \<noteq> None"
  proof
    fix d assume "d \<in> deps_of g ord k"
    with c t have "d \<in> set (GetDependencies g ord c)"
      by (simp add: deps_of_def converted_def)
    with GetDependencies_resolved [OF c, of ord] obtain r where "r \<in> set (refs_of t)"
      and "GetTypeID g r = Some d"
      by blast
    with refs GetTypeID_in_store [OF wf, of r d] show "TypeByID (reader g) d \<noteq> None" by blast
  qed
qed

lemma reach_in_store:
  assumes wf: "well_formed g" and q: "\<forall>i\<in>set q. TypeByID (reader g) i \<noteq> None"
    and k: "k \<in> reach g ord res q"
  shows "TypeByID (reader g) k \<noteq> None"
  using k
proof (induction rule: reach.induct)
  case (start i)
  with q show ?case by blast
next
  case (step k d)
  with converted_well_formed(2) [OF wf, of k ord] show ?case by blast
qed

lemma ResolveTargets_in_store:
  assumes "length (types (reader g)) \<le> 2 ^ 32"
  shows "ResolveTargets g targets q = Inr R \<Longrightarrow> \<forall>i\<in>set q. TypeByID (reader g) i \<noteq> None
    \<Longrightarrow> \<forall>i\<in>set R. TypeByID (reader g) i \<noteq> None"
proof (induction targets arbitrary: q)
  case Nil
  then show ?case by simp
next
  case (Cons t ts)
  from Cons.prems(1) obtain i where i: "ResolveTarget g t = Inr i"
    and rest: "ResolveTargets g ts (q @ [i]) = Inr R"
    by (auto split: sum.splits)
  from ResolveTarget_names [OF i assms] have "TypeByID (reader g) i \<noteq> None" by auto
  with Cons.prems(2) have "\<forall>j\<in>set (q @ [i]). TypeByID (reader g) j \<noteq> None" by simp
  from Cons.IH [OF rest this] show ?case .
qed

subsection \<open>The result of a traversal is the closure of its roots\<close>

text \<open>
  C2.  When the globals are well formed and the targets resolve to the roots \<open>R\<close>, the
  traversal returns, and the key set of the mapping it returns is the smallest set that
  contains the roots and, with every ID \<open>k\<close>, the dependency set of the converted node
  of \<open>k\<close>.
\<close>

theorem C2_closure:
  assumes wf: "well_formed g" and roots: "ResolveTargets g targets [] = Inr R"
  shows "\<exists>res. WalkForTargetTypes g ord targets = Some (Inr res)
     \<and> set R \<subseteq> dom res \<and> dep_closed g ord (dom res)
     \<and> (\<forall>S. set R \<subseteq> S \<and> dep_closed g ord S \<longrightarrow> dom res \<subseteq> S)"
proof -
  let ?C = "reach g ord Map.empty R"
  from wf have len: "length (types (reader g)) \<le> 2 ^ 32" by (simp add: well_formed_def)
  from ResolveTargets_in_store [OF len roots]
  have R: "\<forall>i\<in>set R. TypeByID (reader g) i \<noteq> None" by simp
  have ok: "\<forall>k\<in>?C. \<exists>c. converted g k = Some (Inr c)"
    using converted_well_formed(1) [OF wf] reach_in_store [OF wf R] by blast
  from WalkLoop_reach [OF ok, of "[]"] obtain log' where
    w: "WalkLoop g ord R Map.empty [] = Some (Inr (Map.empty ++ conv_on g ?C, log'))"
    by blast
  let ?res = "Map.empty ++ conv_on g ?C"
  have walk: "WalkForTargetTypes g ord targets = Some (Inr ?res)"
    by (simp add: WalkForTargetTypes_def roots w)
  have dom: "dom ?res = ?C"
    using ok by (auto simp: conv_on_def dom_def split: if_splits)
  have "set R \<subseteq> ?C" by (auto intro: reach.start)
  moreover have "dep_closed g ord ?C"
    by (auto simp: dep_closed_def intro: reach.step)
  moreover have "?C \<subseteq> S" if S: "set R \<subseteq> S" "dep_closed g ord S" for S
  proof
    fix k assume "k \<in> ?C"
    then show "k \<in> S"
      using S by (induction rule: reach.induct) (auto simp: dep_closed_def)
  qed
  ultimately show ?thesis using walk dom by auto
qed


lemma demo_well_formed: "well_formed (demo_globals True False)"
proof -
  have r: "reader (demo_globals True False) = demo_store" 
    and d: "isDereference (demo_globals True False)"
    by (simp_all add: demo_globals_def)
  have A: "\<forall>t\<in>set (types demo_store). \<forall>r\<in>set (refs_of t). r \<in> {1, 2, 3, 4, 7}"
    by (simp add: demo_store_def)
  have B: "\<forall>r\<in>{1, 2, 3, 4, 7}. TypeByID demo_store r \<noteq> None \<and> UnderlyingType demo_store r \<noteq> None"
    by (simp add: demo_nodes demo_Underlying demo_Underlying_4)
  from A B have "\<forall>t\<in>set (types demo_store). \<forall>r\<in>set (refs_of t).
      TypeByID demo_store r \<noteq> None \<and> UnderlyingType demo_store r \<noteq> None"
    by blast
  moreover have "length (types demo_store) \<le> 2 ^ 32" by (simp add: demo_store_def)
  ultimately show ?thesis
    unfolding well_formed_def by (simp add: r d GetTypeID_def)
qed


lemma demo_deps:
  "deps_of (demo_globals True False) id 1 = {}"
  "deps_of (demo_globals True False) id 2 = {}"
  "deps_of (demo_globals True False) id 3 = {1, 2}"
  "deps_of (demo_globals True False) id 6 = {3}"
  "deps_of (demo_globals True False) id 7 = {1}"
  "deps_of (demo_globals True False) id 8 = {1, 7}"
  by (simp_all add: deps_of_def converted_def demo_globals_def demo_nodes demo_struct_def
      demo_union_def BTFStructParser_def BTFUnionParser_def BTFArrayParser_def GetTypeID_def
      demo_Underlying Let_def insert_commute)



lemma dep_closedD: "dep_closed g ord S \<Longrightarrow> k \<in> S \<Longrightarrow> d \<in> deps_of g ord k \<Longrightarrow> d \<in> S"
  by (auto simp: dep_closed_def)

theorem C2_closure_witness:
  "well_formed (demo_globals True False) \<and>
   ResolveTargets (demo_globals True False) [''Foo_t'', ''union:U''] [] = Inr [6, 8] \<and>
   (\<exists>res. WalkForTargetTypes (demo_globals True False) id [''Foo_t'', ''union:U''] = Some (Inr res)
      \<and> dom res = {1, 2, 3, 6, 7, 8})"
proof -
  let ?g = "demo_globals True False"
  have roots: "ResolveTargets ?g [''Foo_t'', ''union:U''] [] = Inr [6, 8]" by code_simp
  from C2_closure [OF demo_well_formed roots, of id]
  obtain res where all: "WalkForTargetTypes ?g id [''Foo_t'', ''union:U''] = Some (Inr res)
     \<and> set [6, 8] \<subseteq> dom res \<and> dep_closed ?g id (dom res)
     \<and> (\<forall>S. set [6, 8] \<subseteq> S \<and> dep_closed ?g id S \<longrightarrow> dom res \<subseteq> S)"
    by (rule exE)
  then have w: "WalkForTargetTypes ?g id [''Foo_t'', ''union:U''] = Some (Inr res)"
    and k6: "6 \<in> dom res" and k8: "8 \<in> dom res" and c: "dep_closed ?g id (dom res)"
    by simp_all
  have "dep_closed ?g id {1, 2, 3, 6, 7, 8}"
    by (simp add: dep_closed_def demo_deps)
  moreover have "set [6, 8] \<subseteq> {1, 2, 3, 6, 7, 8 :: TypeID}" by simp
  ultimately have sub: "dom res \<subseteq> {1, 2, 3, 6, 7, 8}"
    using all by meson
  have k3: "3 \<in> dom res" by (rule dep_closedD [OF c k6]) (simp add: demo_deps)
  have k1: "1 \<in> dom res" by (rule dep_closedD [OF c k3]) (simp add: demo_deps)
  have k2: "2 \<in> dom res" by (rule dep_closedD [OF c k3]) (simp add: demo_deps)
  have k7: "7 \<in> dom res" by (rule dep_closedD [OF c k8]) (simp add: demo_deps)
  from sub k1 k2 k3 k6 k7 k8 have "dom res = {1, 2, 3, 6, 7, 8}" by auto
  with demo_well_formed roots w show ?thesis by simp
qed


subsection \<open>The traversal converts an ID once for each time it was enqueued\<close>

text \<open>
  C1.  The specification has the loop skip a popped ID that is already a key of the result,
  so that every ID is converted exactly once.  The loop of \<^verbatim>\<open>WalkForTargetTypes\<close> tests
  the result mapping only when it appends a dependency, not when it pops: an ID appended
  twice before its first conversion is converted twice, and each of its conversions
  appends its dependencies again.  For the target \<^verbatim>\<open>struct:Quad\<close> the root is ID 3, and
  \<^verbatim>\<open>BTFTypeParser\<close> is called for the IDs 3, 2, 2, 1, 1, 1, 1 in this order: the struct
  \<^verbatim>\<open>Pair\<close> is converted twice and \<^verbatim>\<open>int\<close> four times.
\<close>

theorem C1_conversions_repeated:
  "ResolveTargets nest_globals [''struct:Quad''] [] = Inr [3] \<and>
   map_option (map_sum id snd) (WalkLoop nest_globals id [3] Map.empty []) =
     Some (Inr [3, 2, 2, 1, 1, 1, 1])"
  by code_simp

end
